theory Spec2Isabelle
  imports Main
begin

section \<open>Data model of \<open>app/views.py\<close>\<close>

text \<open>
  A user is identified by its username (unique in Django's \<open>auth_user\<close> table), which
  stands here for the row's primary key. \<open>request.user\<close> is either Django's
  \<open>AnonymousUser\<close> (\<open>is_authenticated\<close> and \<open>is_superuser\<close> both false) or a
  signed-in user with its \<open>is_superuser\<close> flag.
\<close>

datatype requester = AnonymousUser | AuthUser string bool

fun is_authenticated :: "requester \<Rightarrow> bool" where
  "is_authenticated AnonymousUser = False"
| "is_authenticated (AuthUser name su) = True"

fun is_superuser :: "requester \<Rightarrow> bool" where
  "is_superuser AnonymousUser = False"
| "is_superuser (AuthUser name su) = su"

text \<open>
  One row of the \<open>MyTable\<close> model: the primary key \<open>pk\<close> (Django's \<open>id\<close>), the owner
  \<open>user\<close> (a foreign key, here the owner's username) and the eleven attributes that
  \<open>export_excel\<close> reads. The views only ever copy the attributes or pass them to
  \<open>str()\<close>, so each one is kept as the string it prints as.
\<close>

record MyTable =
  pk :: nat
  user :: string
  client_name :: string
  date :: string
  modified_at :: string
  contact_number :: string
  vendor_name :: string
  vendor_company :: string
  rate :: string
  currency :: string
  contract_type :: string
  status :: string
  comments :: string

record account =
  acc_username :: string
  acc_password :: string
  acc_superuser :: bool

text \<open>
  What the views read of a request: \<open>request.user\<close>, \<open>request.method\<close>, the two
  parameter dictionaries, and the clock that \<open>datetime.datetime.now()\<close> reads while the
  request is served (already printed by \<open>str()\<close>).
\<close>

record request =
  req_user :: requester
  http_method :: string
  POST :: "(string \<times> string) list"
  GET :: "(string \<times> string) list"
  now :: string

text \<open>
  The persistent state the views act on: the accounts, the session of the client
  (the username \<open>login()\<close> stored, if any), the queued flash messages, the rows of
  \<open>MyTable\<close> in the store's iteration order, and the next value of the auto-increment key.
\<close>

record state =
  accounts :: "account list"
  session :: "string option"
  flash :: "string list"
  objects :: "MyTable list"
  next_pk :: nat

datatype exn =
    DoesNotExist
  | MultipleObjectsReturned
  | TypeError
  | ValueError
  | XlwtError

fun str_exn :: "exn \<Rightarrow> string" where
  "str_exn DoesNotExist = ''MyTable matching query does not exist.''"
| "str_exn MultipleObjectsReturned = ''get() returned more than one MyTable''"
| "str_exn TypeError = ''TypeError''"
| "str_exn ValueError = ''ValueError''"
| "str_exn XlwtError = ''xlwt''"

record cell =
  label :: string
  bold :: bool

type_synonym sheet = "nat \<times> nat \<Rightarrow> cell option"

text \<open>
  The responses the views build. \<open>Render t rs\<close> is \<open>render(request, t, ctx)\<close> with the
  records \<open>rs\<close> that \<open>ctx\<close> hands to the template (form objects and the \<open>hide_signin\<close>
  flag are presentation only). \<open>XlsResponse name sh\<close> is the \<open>application/ms-excel\<close>
  attachment with its file name and the worksheet saved into it.
\<close>

datatype response =
    Redirect string
  | Render string "MyTable list"
  | HttpResponseForbidden string
  | HttpResponseServerError string
  | XlsResponse string sheet

text \<open>
  The collaborators that are not part of \<open>views.py\<close> are parameters of the model:
  the validation of the three forms, the list of model fields \<open>MyTableForm\<close> binds,
  the per-field test of \<open>FormFilter\<close>, and which cells and workbooks the \<open>xlwt\<close>
  library accepts (it raises on what the \<open>.xls\<close> format cannot hold).
\<close>

record env =
  SignUpForm_valid :: "(string \<times> string) list \<Rightarrow> account list \<Rightarrow> bool"
  LoginForm_valid :: "(string \<times> string) list \<Rightarrow> bool"
  MyTableForm_valid :: "(string \<times> string) list \<Rightarrow> bool"
  form_fields :: "string list"
  filter_match :: "string \<Rightarrow> string \<Rightarrow> MyTable \<Rightarrow> bool"
  write_accepts :: "nat \<Rightarrow> nat \<Rightarrow> string \<Rightarrow> bool"
  save_accepts :: "sheet \<Rightarrow> bool"

section \<open>The object-relational layer as the views use it\<close>

text \<open>\<open>request.POST.get(k)\<close>; Python's \<open>None\<close> prints as \<open>None\<close>.\<close>

definition post_get :: "(string \<times> string) list \<Rightarrow> string \<Rightarrow> string" where
  "post_get d k = (case map_of d k of None \<Rightarrow> ''None'' | Some v \<Rightarrow> v)"

text \<open>\<open>detail.user == request.user\<close>: model instances compare by primary key, and
  \<open>AnonymousUser\<close> equals no stored user.\<close>

fun same_user :: "string \<Rightarrow> requester \<Rightarrow> bool" where
  "same_user owner AnonymousUser = False"
| "same_user owner (AuthUser name su) = (owner = name)"

text \<open>\<open>MyTable.objects.get(id=req_id)\<close>: the one row with that key, \<open>DoesNotExist\<close>
  when there is none, \<open>MultipleObjectsReturned\<close> when there are several.\<close>

definition objects_get :: "nat \<Rightarrow> MyTable list \<Rightarrow> exn + MyTable" where
  "objects_get req_id rows =
     (case filter (\<lambda>r. pk r = req_id) rows of
        [] \<Rightarrow> Inl DoesNotExist
      | [r] \<Rightarrow> Inr r
      | r # r' # rs \<Rightarrow> Inl MultipleObjectsReturned)"

text \<open>\<open>MyTable.objects.filter(user=request.user)\<close>: the rows owned by the user. Django
  cannot turn \<open>AnonymousUser\<close> into a key and raises \<open>TypeError\<close> when the lookup is
  built.\<close>

fun objects_filter_user :: "requester \<Rightarrow> MyTable list \<Rightarrow> exn + MyTable list" where
  "objects_filter_user AnonymousUser rows = Inl TypeError"
| "objects_filter_user (AuthUser name su) rows = Inr (filter (\<lambda>r. user r = name) rows)"

text \<open>Reading a model field by name, as \<open>values_list\<close> does; \<open>user__username\<close> follows
  the foreign key to the owner's username.\<close>

definition field_value :: "string \<Rightarrow> MyTable \<Rightarrow> string" where
  "field_value f r =
     (if f = ''client_name'' then client_name r
      else if f = ''date'' then date r
      else if f = ''modified_at'' then modified_at r
      else if f = ''contact_number'' then contact_number r
      else if f = ''vendor_name'' then vendor_name r
      else if f = ''vendor_company'' then vendor_company r
      else if f = ''rate'' then rate r
      else if f = ''currency'' then currency r
      else if f = ''contract_type'' then contract_type r
      else if f = ''status'' then status r
      else if f = ''comments'' then comments r
      else if f = ''user__username'' \<or> f = ''user'' then user r
      else ''None'')"

definition values_list :: "string list \<Rightarrow> MyTable list \<Rightarrow> string list list" where
  "values_list fs rows = map (\<lambda>r. map (\<lambda>f. field_value f r) fs) rows"

text \<open>Writing a model field by name, as a bound \<open>ModelForm\<close> does for each of its fields.\<close>

definition set_field :: "string \<Rightarrow> string \<Rightarrow> MyTable \<Rightarrow> MyTable" where
  "set_field f v r =
     (if f = ''client_name'' then r\<lparr>client_name := v\<rparr>
      else if f = ''date'' then r\<lparr>date := v\<rparr>
      else if f = ''modified_at'' then r\<lparr>modified_at := v\<rparr>
      else if f = ''contact_number'' then r\<lparr>contact_number := v\<rparr>
      else if f = ''vendor_name'' then r\<lparr>vendor_name := v\<rparr>
      else if f = ''vendor_company'' then r\<lparr>vendor_company := v\<rparr>
      else if f = ''rate'' then r\<lparr>rate := v\<rparr>
      else if f = ''currency'' then r\<lparr>currency := v\<rparr>
      else if f = ''contract_type'' then r\<lparr>contract_type := v\<rparr>
      else if f = ''status'' then r\<lparr>status := v\<rparr>
      else if f = ''comments'' then r\<lparr>comments := v\<rparr>
      else if f = ''user'' then r\<lparr>user := v\<rparr>
      else r)"

text \<open>\<open>MyTableForm(request.POST, instance=r)\<close> followed by \<open>form.save(commit=False)\<close>: every
  field the form binds and the submission holds is copied onto the instance.\<close>

fun construct_instance :: "string list \<Rightarrow> (string \<times> string) list \<Rightarrow> MyTable \<Rightarrow> MyTable" where
  "construct_instance [] d r = r"
| "construct_instance (f # fs) d r =
     construct_instance fs d (case map_of d f of None \<Rightarrow> r | Some v \<Rightarrow> set_field f v r)"

text \<open>\<open>MyTableForm(request.POST)\<close> without an instance starts from a fresh \<open>MyTable()\<close>,
  which has no key and no owner yet.\<close>

definition blank :: MyTable where
  "blank = \<lparr>pk = 0, user = [], client_name = [], date = [], modified_at = [],
     contact_number = [], vendor_name = [], vendor_company = [], rate = [], currency = [],
     contract_type = [], status = [], comments = []\<rparr>"

text \<open>\<open>instance.save()\<close>: a row without key is inserted under the next key, a row with a
  key replaces the stored row of that key.\<close>

definition save_new :: "MyTable \<Rightarrow> state \<Rightarrow> state" where
  "save_new r st = st\<lparr>objects := objects st @ [r\<lparr>pk := next_pk st\<rparr>],
                       next_pk := Suc (next_pk st)\<rparr>"

definition save_existing :: "MyTable \<Rightarrow> state \<Rightarrow> state" where
  "save_existing r st = st\<lparr>objects := map (\<lambda>x. if pk x = pk r then r else x) (objects st)\<rparr>"

text \<open>\<open>detail.delete()\<close>.\<close>

definition delete_row :: "MyTable \<Rightarrow> state \<Rightarrow> state" where
  "delete_row r st = st\<lparr>objects := filter (\<lambda>x. pk x \<noteq> pk r) (objects st)\<rparr>"

text \<open>
  Modelled from the spec: \<open>app/filters.py\<close> (the class \<open>FormFilter\<close>) is not among the
  sources. The spec's filter layer accepts a mapping of field name to desired value,
  applies it as an additional predicate over the already scoped record set and returns
  the filtered set; fields the request does not name are passed through. The test of
  one field against one value is the parameter \<open>filter_match\<close>.
\<close>

definition FormFilter_qs :: "env \<Rightarrow> (string \<times> string) list \<Rightarrow> MyTable list \<Rightarrow> MyTable list" where
  "FormFilter_qs e params qs =
     filter (\<lambda>r. list_all (\<lambda>kv. filter_match e (fst kv) (snd kv) r) params) qs"

section \<open>The views\<close>

text \<open>\<open>@login_required(login_url='signin')\<close>: an unauthenticated request never reaches the
  view and is redirected to the sign-in page.\<close>

definition login_required ::
  "(request \<Rightarrow> state \<Rightarrow> response \<times> state) \<Rightarrow> request \<Rightarrow> state \<Rightarrow> response \<times> state" where
  "login_required view req st =
     (if is_authenticated (req_user req) then view req st else (Redirect ''signin'', st))"

definition signup :: "env \<Rightarrow> request \<Rightarrow> state \<Rightarrow> response \<times> state" where
  "signup e req st =
     (if is_authenticated (req_user req) then (Redirect ''details'', st)
      else if http_method req = ''POST'' then
        (if SignUpForm_valid e (POST req) (accounts st) then
           (Redirect ''signin'',
            st\<lparr>accounts := accounts st @
                   [\<lparr>acc_username = post_get (POST req) ''username'',
                     acc_password = post_get (POST req) ''password1'',
                     acc_superuser = False\<rparr>],
               flash := flash st @
                   [''Hi '' @ post_get (POST req) ''username'' @
                    '', Account Created Successfully. Use your credentials to login '']\<rparr>)
         else (Render ''sign_up.html'' [], st))
      else (Render ''sign_up.html'' [], st))"

text \<open>\<open>authenticate(request, username=..., password=...)\<close>: the account with these
  credentials, if there is one.\<close>

definition authenticate :: "account list \<Rightarrow> string \<Rightarrow> string \<Rightarrow> account option" where
  "authenticate accs name pw =
     find (\<lambda>a. acc_username a = name \<and> acc_password a = pw) accs"

definition signin :: "env \<Rightarrow> request \<Rightarrow> state \<Rightarrow> response \<times> state" where
  "signin e req st =
     (if is_authenticated (req_user req) then (Redirect ''details'', st)
      else if http_method req = ''POST'' then
        (if LoginForm_valid e (POST req) then
           (case authenticate (accounts st) (post_get (POST req) ''username'')
                   (post_get (POST req) ''password'') of
              Some a \<Rightarrow> (Redirect ''details'', st\<lparr>session := Some (acc_username a)\<rparr>)
            | None \<Rightarrow>
                (Render ''sign_in.html'' [],
                 st\<lparr>flash := flash st @ ['' Username or Password is Incorrect'']\<rparr>))
         else (Render ''sign_in.html'' [], st))
      else (Render ''sign_in.html'' [], st))"

definition signout :: "request \<Rightarrow> state \<Rightarrow> response \<times> state" where
  "signout req st = (Redirect ''signin'', st\<lparr>session := None\<rparr>)"

text \<open>The body of \<open>details\<close>: the scoped query set, then the filter; any exception becomes
  a server error. The template context is \<open>{'details': details, 'filter': filtered_details}\<close>:
  the key \<open>details\<close> holds the view function itself, so the records the view produces are
  those under \<open>filter\<close>.\<close>

definition scoped :: "requester \<Rightarrow> MyTable list \<Rightarrow> exn + MyTable list" where
  "scoped u rows = (if is_superuser u then Inr rows else objects_filter_user u rows)"

definition details_view :: "env \<Rightarrow> request \<Rightarrow> state \<Rightarrow> response \<times> state" where
  "details_view e req st =
     (case scoped (req_user req) (objects st) of
        Inl err \<Rightarrow> (HttpResponseServerError (''An error occurred: '' @ str_exn err), st)
      | Inr all_details \<Rightarrow>
          (Render ''details.html'' (FormFilter_qs e (GET req) all_details), st))"

definition details :: "env \<Rightarrow> request \<Rightarrow> state \<Rightarrow> response \<times> state" where
  "details e = login_required (details_view e)"

text \<open>The body of \<open>addnew\<close>. Assigning \<open>AnonymousUser\<close> to the foreign key raises
  \<open>ValueError\<close> inside the \<open>try\<close>.\<close>

definition addnew_view :: "env \<Rightarrow> request \<Rightarrow> state \<Rightarrow> response \<times> state" where
  "addnew_view e req st =
     (if http_method req = ''POST'' then
        (if MyTableForm_valid e (POST req) then
           (case req_user req of
              AnonymousUser \<Rightarrow>
                (HttpResponseServerError (''An error occurred: '' @ str_exn ValueError), st)
            | AuthUser name su \<Rightarrow>
                (Redirect ''details'',
                 save_new ((construct_instance (form_fields e) (POST req) blank)
                             \<lparr>user := name\<rparr>) st))
         else (Render ''form.html'' [], st))
      else (Render ''form.html'' [], st))"

definition addnew :: "env \<Rightarrow> request \<Rightarrow> state \<Rightarrow> response \<times> state" where
  "addnew e = login_required (addnew_view e)"

definition edit_view :: "env \<Rightarrow> nat \<Rightarrow> request \<Rightarrow> state \<Rightarrow> response \<times> state" where
  "edit_view e req_id req st =
     (case objects_get req_id (objects st) of
        Inl DoesNotExist \<Rightarrow> (HttpResponseServerError ''Record not found.'', st)
      | Inl err \<Rightarrow> (HttpResponseServerError (''An error occurred: '' @ str_exn err), st)
      | Inr edit_detail \<Rightarrow>
          (if \<not> (same_user (user edit_detail) (req_user req) \<or> is_superuser (req_user req))
           then (HttpResponseForbidden ''You don't have permission to edit this record.'', st)
           else if http_method req = ''POST'' then
             (if MyTableForm_valid e (POST req) then
                (Redirect ''details'',
                 save_existing (construct_instance (form_fields e) (POST req) edit_detail) st)
              else (Render ''edit.html'' [edit_detail], st))
           else (Render ''edit.html'' [edit_detail], st)))"

definition edit :: "env \<Rightarrow> request \<Rightarrow> nat \<Rightarrow> state \<Rightarrow> response \<times> state" where
  "edit e req req_id = login_required (edit_view e req_id) req"

definition delete_view :: "nat \<Rightarrow> request \<Rightarrow> state \<Rightarrow> response \<times> state" where
  "delete_view req_id req st =
     (case objects_get req_id (objects st) of
        Inl DoesNotExist \<Rightarrow> (HttpResponseServerError ''Record not found.'', st)
      | Inl err \<Rightarrow> (HttpResponseServerError (''An error occurred: '' @ str_exn err), st)
      | Inr detail \<Rightarrow>
          (if \<not> (same_user (user detail) (req_user req) \<or> is_superuser (req_user req))
           then (HttpResponseForbidden ''You don't have permission to delete this record.'', st)
           else (Redirect ''details'', delete_row detail st)))"

definition delete :: "request \<Rightarrow> nat \<Rightarrow> state \<Rightarrow> response \<times> state" where
  "delete req req_id = login_required (delete_view req_id) req"

section \<open>The export\<close>

text \<open>\<open>wsheet.write(r, c, label, style)\<close>: the cell is stored, unless \<open>xlwt\<close> raises on
  it. The view writes every cell once, so \<open>xlwt\<close>'s overwrite check never fires.\<close>

definition wsheet_write :: "env \<Rightarrow> nat \<Rightarrow> nat \<Rightarrow> string \<Rightarrow> bool \<Rightarrow> sheet \<Rightarrow> exn + sheet" where
  "wsheet_write e r c l b sh =
     (if write_accepts e r c l then Inr (sh((r, c) \<mapsto> \<lparr>label = l, bold = b\<rparr>))
      else Inl XlwtError)"

text \<open>\<open>for col_num in range(len(row)): wsheet.write(rownum, col_num, row[col_num], style)\<close>,
  from column \<open>c\<close> on.\<close>

fun write_cells :: "env \<Rightarrow> nat \<Rightarrow> nat \<Rightarrow> string list \<Rightarrow> bool \<Rightarrow> sheet \<Rightarrow> exn + sheet" where
  "write_cells e r c [] b sh = Inr sh"
| "write_cells e r c (l # ls) b sh =
     (case wsheet_write e r c l b sh of
        Inl err \<Rightarrow> Inl err
      | Inr sh' \<Rightarrow> write_cells e r (Suc c) ls b sh')"

text \<open>\<open>for row in rows: rownum += 1; ...\<close>, entered with the current \<open>rownum\<close>.\<close>

fun write_rows :: "env \<Rightarrow> nat \<Rightarrow> string list list \<Rightarrow> sheet \<Rightarrow> exn + sheet" where
  "write_rows e rownum [] sh = Inr sh"
| "write_rows e rownum (row # rows) sh =
     (case write_cells e (Suc rownum) 0 row False sh of
        Inl err \<Rightarrow> Inl err
      | Inr sh' \<Rightarrow> write_rows e (Suc rownum) rows sh')"

definition admin_columns :: "string list" where
  "admin_columns = [''Client Name'', ''Entry Date'', ''Modified At'',
     ''Contact Number'', ''Vendor Name'', ''Vendor Company'',
     ''Rate'', ''Currency'', ''Contract Type'', ''Status'',
     ''Comments'', ''User'']"

definition admin_fields :: "string list" where
  "admin_fields = [''client_name'', ''date'', ''modified_at'', ''contact_number'',
     ''vendor_name'', ''vendor_company'', ''rate'', ''currency'', ''contract_type'',
     ''status'', ''comments'', ''user__username'']"

definition user_columns :: "string list" where
  "user_columns = [''Client Name'', ''Entry Date'', ''Modified At'', ''Contact Number'',
     ''Vendor Name'', ''Vendor Company'', ''Rate'', ''Currency'', ''Contract Type'',
     ''Status'', ''Comments'']"

definition user_fields :: "string list" where
  "user_fields = [''client_name'', ''date'', ''modified_at'', ''contact_number'',
     ''vendor_name'', ''vendor_company'', ''rate'', ''currency'', ''contract_type'',
     ''status'', ''comments'']"

text \<open>\<open>wbook.save(response)\<close> and the \<open>return\<close>.\<close>

definition save_workbook :: "env \<Rightarrow> request \<Rightarrow> sheet \<Rightarrow> exn + response" where
  "save_workbook e req sh =
     (if save_accepts e sh then Inr (XlsResponse (''Data_'' @ now req @ ''.xls'') sh)
      else Inl XlwtError)"

text \<open>
  \<open>export_excel\<close> carries no decorator and no \<open>try\<close>: it runs for every requester, and an
  exception raised inside it leaves the view (\<open>Inl\<close>). It does not touch the state.
\<close>

definition export_excel :: "env \<Rightarrow> request \<Rightarrow> state \<Rightarrow> exn + response" where
  "export_excel e req st =
     (if is_superuser (req_user req) then
        (case write_cells e 0 0 admin_columns True Map.empty of
           Inl err \<Rightarrow> Inl err
         | Inr sh \<Rightarrow>
             (case write_rows e 0 (values_list admin_fields (objects st)) sh of
                Inl err \<Rightarrow> Inl err
              | Inr sh' \<Rightarrow> save_workbook e req sh'))
      else
        (case write_cells e 0 0 user_columns True Map.empty of
           Inl err \<Rightarrow> Inl err
         | Inr sh \<Rightarrow>
             (case objects_filter_user (req_user req) (objects st) of
                Inl err \<Rightarrow> Inl err
              | Inr rows \<Rightarrow>
                  (case write_rows e 0 (values_list user_fields rows) sh of
                     Inl err \<Rightarrow> Inl err
                   | Inr sh' \<Rightarrow> save_workbook e req sh'))))"

text \<open>The header and the field list of the requester's branch of \<open>export_excel\<close>.\<close>

definition columns_for :: "requester \<Rightarrow> string list" where
  "columns_for u = (if is_superuser u then admin_columns else user_columns)"

definition fields_for :: "requester \<Rightarrow> string list" where
  "fields_for u = (if is_superuser u then admin_fields else user_fields)"

text \<open>\<open>cells_accepted e r c ls\<close>: \<open>xlwt\<close> accepts each of the cells that the inner loop
  writes for the row \<open>ls\<close> from column \<open>c\<close> on; \<open>rows_accepted\<close>: the same for every cell the
  outer loop writes below row \<open>rownum\<close>.\<close>

fun cells_accepted :: "env \<Rightarrow> nat \<Rightarrow> nat \<Rightarrow> string list \<Rightarrow> bool" where
  "cells_accepted e r c [] = True"
| "cells_accepted e r c (l # ls) = (write_accepts e r c l \<and> cells_accepted e r (Suc c) ls)"

fun rows_accepted :: "env \<Rightarrow> nat \<Rightarrow> string list list \<Rightarrow> bool" where
  "rows_accepted e rownum [] = True"
| "rows_accepted e rownum (row # rows) =
     (cells_accepted e (Suc rownum) 0 row \<and> rows_accepted e (Suc rownum) rows)"

section \<open>Sequences of requests\<close>

datatype operation =
    Signup request
  | Signin request
  | Signout request
  | Details request
  | Addnew request
  | Edit request nat
  | Delete request nat
  | Export request

fun step :: "env \<Rightarrow> operation \<Rightarrow> state \<Rightarrow> state" where
  "step e (Signup req) st = snd (signup e req st)"
| "step e (Signin req) st = snd (signin e req st)"
| "step e (Signout req) st = snd (signout req st)"
| "step e (Details req) st = snd (details e req st)"
| "step e (Addnew req) st = snd (addnew e req st)"
| "step e (Edit req req_id) st = snd (edit e req req_id st)"
| "step e (Delete req req_id) st = snd (delete req req_id st)"
| "step e (Export req) st = st"

fun run :: "env \<Rightarrow> operation list \<Rightarrow> state \<Rightarrow> state" where
  "run e [] st = st"
| "run e (op # ops) st = run e ops (step e op st)"

text \<open>The store before the first request: no rows, keys start at 1.\<close>

definition init :: state where
  "init = \<lparr>accounts = [], session = None, flash = [], objects = [], next_pk = 1\<rparr>"

section \<open>Well-formed stores\<close>

text \<open>The primary-key discipline of the table: keys are unique and were all handed out
  before the next key.\<close>

definition wf_store :: "state \<Rightarrow> bool" where
  "wf_store st =
     (distinct (map pk (objects st)) \<and> list_all (\<lambda>r. pk r < next_pk st) (objects st))"

text \<open>\<open>keeps_owners st st'\<close>: every row of \<open>st'\<close> whose key had been handed out in \<open>st\<close>
  is a row of \<open>st\<close> with the same key and the same owner.\<close>

definition keeps_owners :: "state \<Rightarrow> state \<Rightarrow> bool" where
  "keeps_owners st st' =
     (next_pk st \<le> next_pk st' \<and>
      list_all (\<lambda>r'. pk r' < next_pk st \<longrightarrow>
                  list_ex (\<lambda>r. pk r = pk r' \<and> user r = user r') (objects st))
        (objects st'))"

section \<open>Concrete collaborators, stores and requests\<close>

text \<open>
  Modelled from the spec: \<open>app/forms.py\<close> (the class \<open>MyTableForm\<close>) is not among the
  sources. The spec's record has an owning user that is set at creation time and never
  reassigned, and attributes the add form collects; the form is taken to bind those
  attributes and neither the owner nor the last-modified timestamp.
\<close>

definition MyTableForm_fields :: "string list" where
  "MyTableForm_fields = [''client_name'', ''date'', ''contact_number'', ''vendor_name'',
     ''vendor_company'', ''rate'', ''currency'', ''contract_type'', ''status'', ''comments'']"

text \<open>A sample environment: exact-match filtering, and the limits of the \<open>.xls\<close> format
  (65536 rows, 256 columns, 32767 characters in a cell).\<close>

definition sample_env :: env where
  "sample_env =
     \<lparr>SignUpForm_valid = (\<lambda>d accs. post_get d ''username'' \<notin> set (map acc_username accs)),
      LoginForm_valid = (\<lambda>d. True),
      MyTableForm_valid = (\<lambda>d. map_of d ''client_name'' \<noteq> None),
      form_fields = MyTableForm_fields,
      filter_match = (\<lambda>k v r. field_value k r = v),
      write_accepts = (\<lambda>r c l. r < 65536 \<and> c < 256 \<and> length l \<le> 32767),
      save_accepts = (\<lambda>sh. True)\<rparr>"

text \<open>The same environment with a form that also binds the owner field.\<close>

definition owner_form_env :: env where
  "owner_form_env = sample_env\<lparr>form_fields := ''user'' # MyTableForm_fields\<rparr>"

definition rec_alice :: MyTable where
  "rec_alice = blank\<lparr>pk := 1, user := ''alice'', client_name := ''Acme'', status := ''open''\<rparr>"

definition rec_bob :: MyTable where
  "rec_bob = blank\<lparr>pk := 2, user := ''bob'', client_name := ''Bolt'', status := ''closed''\<rparr>"

definition sample_state :: state where
  "sample_state = \<lparr>accounts = [], session = None, flash = [],
     objects = [rec_alice, rec_bob], next_pk = 3\<rparr>"

text \<open>A store whose one record carries a free-text comment of 32768 characters.\<close>

definition rec_long :: MyTable where
  "rec_long = blank\<lparr>pk := 1, user := ''alice'', client_name := ''Acme'',
     comments := replicate 32768 (CHR ''x'')\<rparr>"

definition long_state :: state where
  "long_state = \<lparr>accounts = [], session = None, flash = [],
     objects = [rec_long], next_pk = 2\<rparr>"

definition mk_request ::
  "requester \<Rightarrow> string \<Rightarrow> (string \<times> string) list \<Rightarrow> (string \<times> string) list \<Rightarrow> request" where
  "mk_request u m post_data get_data =
     \<lparr>req_user = u, http_method = m, POST = post_data, GET = get_data,
      now = ''2024-01-01 00:00:00''\<rparr>"

definition alice :: requester where
  "alice = AuthUser ''alice'' False"

definition root_user :: requester where
  "root_user = AuthUser ''root'' True"

section \<open>Auxiliary facts\<close>

lemma login_required_auth:
  "is_authenticated (req_user req) \<Longrightarrow> login_required v req st = v req st"
  by (simp add: login_required_def)

lemma login_required_anon:
  "\<not> is_authenticated (req_user req) \<Longrightarrow> login_required v req st = (Redirect ''signin'', st)"
  by (simp add: login_required_def)

lemma superuser_authenticated: "is_superuser u \<Longrightarrow> is_authenticated u"
  by (cases u) simp_all

lemma FormFilter_qs_member: "r \<in> set (FormFilter_qs e ps qs) \<Longrightarrow> r \<in> set qs"
  by (simp add: FormFilter_qs_def)

lemma FormFilter_qs_empty: "FormFilter_qs e [] qs = qs"
  by (simp add: FormFilter_qs_def)

lemma objects_get_missing:
  assumes "req_id \<notin> pk ` set rows"
  shows "objects_get req_id rows = Inl DoesNotExist"
proof -
  have "\<forall>r \<in> set rows. pk r \<noteq> req_id"
    using assms by (auto simp: image_iff)
  then have "filter (\<lambda>r. pk r = req_id) rows = []"
    by (simp add: filter_empty_conv)
  then show ?thesis by (simp add: objects_get_def)
qed

lemma filter_distinct_key:
  "distinct (map f xs) \<Longrightarrow> x \<in> set xs \<Longrightarrow> filter (\<lambda>y. f y = f x) xs = [x]"
proof (induction xs)
  case Nil
  then show ?case by simp
next
  case (Cons a xs)
  show ?case
  proof (cases "a = x")
    case True
    then have "f x \<notin> f ` set xs" using Cons.prems by simp
    then have "\<forall>y \<in> set xs. f y \<noteq> f x" by (auto simp: image_iff)
    then have "filter (\<lambda>y. f y = f x) xs = []" by (simp add: filter_empty_conv)
    then show ?thesis using True by simp
  next
    case False
    then have "x \<in> set xs" using Cons.prems by simp
    moreover have "f a \<noteq> f x" using Cons.prems calculation by auto
    ultimately show ?thesis using Cons by simp
  qed
qed

lemma objects_get_found:
  "distinct (map pk rows) \<Longrightarrow> r \<in> set rows \<Longrightarrow> objects_get (pk r) rows = Inr r"
  by (simp add: objects_get_def filter_distinct_key)

lemma sample_rows_eval:
  "user rec_alice = ''alice''" "user rec_bob = ''bob''" "pk rec_alice = 1" "pk rec_bob = 2"
  "status rec_alice = ''open''" "status rec_bob = ''closed''"
  by (simp_all add: rec_alice_def rec_bob_def blank_def)

lemma sample_state_eval:
  "objects sample_state = [rec_alice, rec_bob]" "next_pk sample_state = 3"
  by (simp_all add: sample_state_def)

lemma mk_request_eval:
  "req_user (mk_request u m p g) = u" "http_method (mk_request u m p g) = m"
  "POST (mk_request u m p g) = p" "GET (mk_request u m p g) = g"
  by (simp_all add: mk_request_def)

lemma sample_filter_match: "filter_match sample_env k v r = (field_value k r = v)"
  by (simp add: sample_env_def)

section \<open>Access scoping of the list view\<close>

text \<open>
  Claim C1. For every authenticated non-administrator identity \<open>u\<close>, the record set that
  \<open>details\<close> hands to its template is the requester's own rows narrowed by the filter:
  every record in it is owned by \<open>u\<close> (and is a record of the store).
\<close>

theorem details_scoped_to_owner:
  assumes "req_user req = AuthUser u False"
  shows "details e req st =
           (Render ''details.html''
              (FormFilter_qs e (GET req) (filter (\<lambda>r. user r = u) (objects st))), st)
         \<and> (\<forall>r \<in> set (FormFilter_qs e (GET req) (filter (\<lambda>r. user r = u) (objects st))).
               user r = u \<and> r \<in> set (objects st))"
proof -
  let ?own = "filter (\<lambda>r. user r = u) (objects st)"
  have auth: "is_authenticated (req_user req)"
    using assms by simp
  have sc: "scoped (req_user req) (objects st) = Inr ?own"
    using assms by (simp add: scoped_def)
  have "details e req st = details_view e req st"
    unfolding details_def using auth by (rule login_required_auth)
  also have "\<dots> = (Render ''details.html'' (FormFilter_qs e (GET req) ?own), st)"
    unfolding details_view_def sc by simp
  finally have eq: "details e req st =
      (Render ''details.html'' (FormFilter_qs e (GET req) ?own), st)" .
  have mem: "\<forall>r \<in> set (FormFilter_qs e (GET req) ?own). user r = u \<and> r \<in> set (objects st)"
  proof
    fix r
    assume "r \<in> set (FormFilter_qs e (GET req) ?own)"
    then have "r \<in> set ?own" by (rule FormFilter_qs_member)
    then show "user r = u \<and> r \<in> set (objects st)" by simp
  qed
  from eq mem show ?thesis ..
qed

theorem details_scoped_to_owner_witness:
  "req_user (mk_request alice ''GET'' [] []) = AuthUser ''alice'' False
   \<and> details sample_env (mk_request alice ''GET'' [] []) sample_state =
       (Render ''details.html'' [rec_alice], sample_state)"
  using details_scoped_to_owner [of "mk_request alice ''GET'' [] []" "''alice''"
      sample_env sample_state]
  by (simp add: mk_request_eval alice_def sample_state_eval sample_rows_eval FormFilter_qs_empty)

text \<open>
  Claim C2, as amended. For an administrator the scoped query set is the full store, and
  the record set that \<open>details\<close> hands to its template is the full store narrowed by the
  request's filter parameters; without filter parameters it is the full store.
\<close>

theorem details_admin_filtered_store:
  assumes "is_superuser (req_user req)"
  shows "details e req st =
           (Render ''details.html'' (FormFilter_qs e (GET req) (objects st)), st)
         \<and> (GET req = [] \<longrightarrow> details e req st = (Render ''details.html'' (objects st), st))"
proof -
  have auth: "is_authenticated (req_user req)"
    using assms by (rule superuser_authenticated)
  have sc: "scoped (req_user req) (objects st) = Inr (objects st)"
    using assms by (simp add: scoped_def)
  have "details e req st = details_view e req st"
    unfolding details_def using auth by (rule login_required_auth)
  also have "\<dots> = (Render ''details.html'' (FormFilter_qs e (GET req) (objects st)), st)"
    unfolding details_view_def sc by simp
  finally have eq: "details e req st =
      (Render ''details.html'' (FormFilter_qs e (GET req) (objects st)), st)" .
  then show ?thesis by (simp add: FormFilter_qs_empty)
qed

theorem details_admin_filtered_store_witness:
  "is_superuser (req_user (mk_request root_user ''GET'' [] []))
   \<and> details sample_env (mk_request root_user ''GET'' [] []) sample_state =
       (Render ''details.html'' [rec_alice, rec_bob], sample_state)"
  using details_admin_filtered_store [of "mk_request root_user ''GET'' [] []"
      sample_env sample_state]
  by (simp add: mk_request_eval root_user_def sample_state_eval FormFilter_qs_empty)

lemma field_value_status: "field_value ''status'' r = status r"
  by (simp add: field_value_def)

text \<open>
  The claim as stated (the administrator's record set equals the full store) fails once
  the request carries a filter parameter: an administrator filtering on
  \<open>status = closed\<close> is shown one of the two stored records.
\<close>

theorem details_admin_full_store_counterexample:
  "is_superuser (req_user (mk_request root_user ''GET'' [] [(''status'', ''closed'')]))
   \<and> details sample_env (mk_request root_user ''GET'' [] [(''status'', ''closed'')]) sample_state =
       (Render ''details.html'' [rec_bob], sample_state)
   \<and> [rec_bob] \<noteq> objects sample_state"
proof -
  have "is_superuser (req_user (mk_request root_user ''GET'' [] [(''status'', ''closed'')]))"
    by (simp add: mk_request_eval root_user_def)
  moreover have "details sample_env (mk_request root_user ''GET'' [] [(''status'', ''closed'')])
      sample_state = (Render ''details.html'' [rec_bob], sample_state)"
    by (simp add: details_def login_required_def details_view_def scoped_def mk_request_eval
        root_user_def sample_state_eval FormFilter_qs_def sample_filter_match
        field_value_status sample_rows_eval)
  moreover have "[rec_bob] \<noteq> objects sample_state"
    by (simp add: sample_state_eval)
  ultimately show ?thesis by blast
qed

section \<open>Ownership checks of the mutating views\<close>

text \<open>
  Claim C3, as amended. For every authenticated non-administrator requester and every
  existing record whose owner is not the requester, \<open>edit\<close> and \<open>delete\<close> each return a
  Forbidden response and leave the state unchanged, whatever the method and the submitted
  form.
\<close>

theorem foreign_record_forbidden:
  assumes "req_user req = AuthUser u False"
    and "distinct (map pk (objects st))"
    and "r \<in> set (objects st)"
    and "user r \<noteq> u"
  shows "edit e req (pk r) st =
           (HttpResponseForbidden ''You don't have permission to edit this record.'', st)
         \<and> delete req (pk r) st =
           (HttpResponseForbidden ''You don't have permission to delete this record.'', st)"
proof -
  have g: "objects_get (pk r) (objects st) = Inr r"
    using assms(2,3) by (rule objects_get_found)
  have auth: "is_authenticated (req_user req)"
    using assms(1) by simp
  have deny: "\<not> (same_user (user r) (req_user req) \<or> is_superuser (req_user req))"
    using assms(1,4) by simp
  have "edit e req (pk r) st = edit_view e (pk r) req st"
    unfolding edit_def using auth by (rule login_required_auth)
  also have "\<dots> =
      (HttpResponseForbidden ''You don't have permission to edit this record.'', st)"
    unfolding edit_view_def g using deny by simp
  finally have e1: "edit e req (pk r) st =
      (HttpResponseForbidden ''You don't have permission to edit this record.'', st)" .
  have "delete req (pk r) st = delete_view (pk r) req st"
    unfolding delete_def using auth by (rule login_required_auth)
  also have "\<dots> =
      (HttpResponseForbidden ''You don't have permission to delete this record.'', st)"
    unfolding delete_view_def g using deny by simp
  finally have e2: "delete req (pk r) st =
      (HttpResponseForbidden ''You don't have permission to delete this record.'', st)" .
  from e1 e2 show ?thesis ..
qed

theorem foreign_record_forbidden_witness:
  "req_user (mk_request alice ''POST'' [(''client_name'', ''X'')] []) = AuthUser ''alice'' False
   \<and> distinct (map pk (objects sample_state))
   \<and> rec_bob \<in> set (objects sample_state)
   \<and> user rec_bob \<noteq> ''alice''
   \<and> edit sample_env (mk_request alice ''POST'' [(''client_name'', ''X'')] []) 2 sample_state =
       (HttpResponseForbidden ''You don't have permission to edit this record.'', sample_state)
   \<and> delete (mk_request alice ''POST'' [(''client_name'', ''X'')] []) 2 sample_state =
       (HttpResponseForbidden ''You don't have permission to delete this record.'', sample_state)"
  using foreign_record_forbidden [of "mk_request alice ''POST'' [(''client_name'', ''X'')] []"
      "''alice''" sample_state rec_bob sample_env]
  by (simp add: mk_request_eval alice_def sample_state_eval sample_rows_eval)

text \<open>
  The claim as stated ranges over every non-administrator requester. An unauthenticated
  requester is one (\<open>AnonymousUser\<close> is no superuser and owns no record), and
  \<open>login_required\<close> answers it with the redirect to the sign-in page, not with Forbidden.
\<close>

theorem anonymous_mutation_counterexample:
  "\<not> is_superuser (req_user (mk_request AnonymousUser ''POST'' [] []))
   \<and> rec_alice \<in> set (objects sample_state)
   \<and> \<not> same_user (user rec_alice) (req_user (mk_request AnonymousUser ''POST'' [] []))
   \<and> edit sample_env (mk_request AnonymousUser ''POST'' [] []) (pk rec_alice) sample_state =
       (Redirect ''signin'', sample_state)
   \<and> delete (mk_request AnonymousUser ''POST'' [] []) (pk rec_alice) sample_state =
       (Redirect ''signin'', sample_state)"
  by (simp add: edit_def delete_def login_required_def mk_request_eval sample_state_eval)

text \<open>
  Claim C8, as amended. For every \<open>edit\<close> or \<open>delete\<close> request of an authenticated
  requester naming an identifier that no stored record has, the view returns the
  server-error response \<open>Record not found.\<close> and leaves the state unchanged.
\<close>

theorem missing_record_server_error:
  assumes "is_authenticated (req_user req)"
    and "req_id \<notin> pk ` set (objects st)"
  shows "edit e req req_id st = (HttpResponseServerError ''Record not found.'', st)
         \<and> delete req req_id st = (HttpResponseServerError ''Record not found.'', st)"
proof -
  have g: "objects_get req_id (objects st) = Inl DoesNotExist"
    using assms(2) by (rule objects_get_missing)
  have "edit e req req_id st = edit_view e req_id req st"
    unfolding edit_def using assms(1) by (rule login_required_auth)
  also have "\<dots> = (HttpResponseServerError ''Record not found.'', st)"
    unfolding edit_view_def g by simp
  finally have e1: "edit e req req_id st = (HttpResponseServerError ''Record not found.'', st)" .
  have "delete req req_id st = delete_view req_id req st"
    unfolding delete_def using assms(1) by (rule login_required_auth)
  also have "\<dots> = (HttpResponseServerError ''Record not found.'', st)"
    unfolding delete_view_def g by simp
  finally have e2: "delete req req_id st = (HttpResponseServerError ''Record not found.'', st)" .
  from e1 e2 show ?thesis ..
qed

theorem missing_record_server_error_witness:
  "is_authenticated (req_user (mk_request alice ''GET'' [] []))
   \<and> 7 \<notin> pk ` set (objects sample_state)
   \<and> edit sample_env (mk_request alice ''GET'' [] []) 7 sample_state =
       (HttpResponseServerError ''Record not found.'', sample_state)
   \<and> delete (mk_request alice ''GET'' [] []) 7 sample_state =
       (HttpResponseServerError ''Record not found.'', sample_state)"
  using missing_record_server_error [of "mk_request alice ''GET'' [] []" 7 sample_state sample_env]
  by (simp add: mk_request_eval alice_def sample_state_eval sample_rows_eval)

text \<open>
  The claim as stated ranges over every request. An unauthenticated request naming a
  missing identifier is redirected to the sign-in page by \<open>login_required\<close> before the
  lookup is made.
\<close>

theorem anonymous_missing_record_counterexample:
  "7 \<notin> pk ` set (objects sample_state)
   \<and> edit sample_env (mk_request AnonymousUser ''POST'' [] []) 7 sample_state =
       (Redirect ''signin'', sample_state)
   \<and> delete (mk_request AnonymousUser ''POST'' [] []) 7 sample_state =
       (Redirect ''signin'', sample_state)"
  by (simp add: edit_def delete_def login_required_def mk_request_eval sample_state_eval
      sample_rows_eval)

section \<open>Creation\<close>

text \<open>
  Claim C6. For every valid create-record submission of an authenticated requester,
  \<open>addnew\<close> stores exactly one new record, under the next key, and its owner is the
  requester: whatever fields the form binds and whatever owner value the submission
  carries.
\<close>

theorem addnew_owner_is_requester:
  assumes "req_user req = AuthUser u su"
    and "http_method req = ''POST''"
    and "MyTableForm_valid e (POST req)"
  shows "\<exists>r. addnew e req st =
               (Redirect ''details'',
                st\<lparr>objects := objects st @ [r], next_pk := Suc (next_pk st)\<rparr>)
             \<and> user r = u \<and> pk r = next_pk st"
proof -
  let ?r = "(construct_instance (form_fields e) (POST req) blank)\<lparr>user := u, pk := next_pk st\<rparr>"
  have auth: "is_authenticated (req_user req)"
    using assms(1) by simp
  have "addnew e req st = addnew_view e req st"
    unfolding addnew_def using auth by (rule login_required_auth)
  also have "\<dots> = (Redirect ''details'',
                st\<lparr>objects := objects st @ [?r], next_pk := Suc (next_pk st)\<rparr>)"
    using assms by (simp add: addnew_view_def save_new_def)
  finally have eq: "addnew e req st = (Redirect ''details'',
                st\<lparr>objects := objects st @ [?r], next_pk := Suc (next_pk st)\<rparr>)" .
  have "user ?r = u \<and> pk ?r = next_pk st" by simp
  with eq show ?thesis by blast
qed

text \<open>The instance: a form that binds the owner field, and a submission by
  \<open>alice\<close> that names \<open>bob\<close> as owner.\<close>

theorem addnew_owner_is_requester_witness:
  "req_user (mk_request alice ''POST'' [(''client_name'', ''Zed''), (''user'', ''bob'')] []) =
       AuthUser ''alice'' False
   \<and> http_method (mk_request alice ''POST'' [(''client_name'', ''Zed''), (''user'', ''bob'')] []) =
       ''POST''
   \<and> MyTableForm_valid owner_form_env
       (POST (mk_request alice ''POST'' [(''client_name'', ''Zed''), (''user'', ''bob'')] []))
   \<and> ''user'' \<in> set (form_fields owner_form_env)
   \<and> (\<exists>r. addnew owner_form_env
           (mk_request alice ''POST'' [(''client_name'', ''Zed''), (''user'', ''bob'')] [])
           sample_state =
         (Redirect ''details'',
          sample_state\<lparr>objects := objects sample_state @ [r],
                         next_pk := Suc (next_pk sample_state)\<rparr>)
        \<and> user r = ''alice'' \<and> pk r = next_pk sample_state)"
  using addnew_owner_is_requester
    [of "mk_request alice ''POST'' [(''client_name'', ''Zed''), (''user'', ''bob'')] []"
      "''alice''" False owner_form_env sample_state]
  by (simp add: mk_request_eval alice_def owner_form_env_def sample_env_def)

section \<open>Sign-up and sign-in of a signed-in requester\<close>

text \<open>
  Claim C10. For every already authenticated requester, \<open>signup\<close> and \<open>signin\<close> redirect
  to the details page and return the state as it was: no account is created, no session
  is established, no message is queued.
\<close>

theorem authenticated_signup_signin_redirect:
  assumes "is_authenticated (req_user req)"
  shows "signup e req st = (Redirect ''details'', st)
         \<and> signin e req st = (Redirect ''details'', st)"
proof -
  have "signup e req st = (Redirect ''details'', st)"
    using assms by (simp add: signup_def)
  moreover have "signin e req st = (Redirect ''details'', st)"
    using assms by (simp add: signin_def)
  ultimately show ?thesis ..
qed

theorem authenticated_signup_signin_redirect_witness:
  "is_authenticated (req_user (mk_request alice ''POST''
       [(''username'', ''carol''), (''password1'', ''pw''), (''password'', ''pw'')] []))
   \<and> signup sample_env (mk_request alice ''POST''
       [(''username'', ''carol''), (''password1'', ''pw''), (''password'', ''pw'')] []) sample_state =
       (Redirect ''details'', sample_state)
   \<and> signin sample_env (mk_request alice ''POST''
       [(''username'', ''carol''), (''password1'', ''pw''), (''password'', ''pw'')] []) sample_state =
       (Redirect ''details'', sample_state)"
  using authenticated_signup_signin_redirect [of "mk_request alice ''POST''
       [(''username'', ''carol''), (''password1'', ''pw''), (''password'', ''pw'')] []"
       sample_env sample_state]
  by (simp add: mk_request_eval alice_def)

section \<open>The exported worksheet\<close>

text \<open>The cells a run of the two writing loops fills, when no write raises.\<close>

lemma write_cells_dom:
  "write_cells e r c ls b sh = Inr sh' \<Longrightarrow> dom sh' = dom sh \<union> {r} \<times> {c..<c + length ls}"
proof (induction ls arbitrary: c sh)
  case Nil
  then show ?case by simp
next
  case (Cons l ls)
  from Cons.prems obtain sh1 where
    w: "wsheet_write e r c l b sh = Inr sh1" and
    rest: "write_cells e r (Suc c) ls b sh1 = Inr sh'"
    by (auto split: sum.splits)
  from w have d1: "dom sh1 = insert (r, c) (dom sh)"
    by (auto simp: wsheet_write_def split: if_splits)
  from Cons.IH[OF rest] have "dom sh' = dom sh1 \<union> {r} \<times> {Suc c..<Suc c + length ls}" .
  with d1 show ?case by auto
qed

lemma write_rows_dom:
  "write_rows e rn rows sh = Inr sh' \<Longrightarrow> list_all (\<lambda>row. length row = k) rows \<Longrightarrow>
   dom sh' = dom sh \<union> {Suc rn..rn + length rows} \<times> {0..<k}"
proof (induction rows arbitrary: rn sh)
  case Nil
  then show ?case by simp
next
  case (Cons row rows)
  from Cons.prems(1) obtain sh1 where
    w: "write_cells e (Suc rn) 0 row False sh = Inr sh1" and
    rest: "write_rows e (Suc rn) rows sh1 = Inr sh'"
    by (auto split: sum.splits)
  from Cons.prems(2) have len: "length row = k" and all: "list_all (\<lambda>row. length row = k) rows"
    by simp_all
  from write_cells_dom[OF w] len have d1: "dom sh1 = dom sh \<union> {Suc rn} \<times> {0..<k}"
    by simp
  from Cons.IH[OF rest all]
  have "dom sh' = dom sh1 \<union> {Suc (Suc rn)..Suc rn + length rows} \<times> {0..<k}" .
  with d1 show ?case by auto
qed

lemma values_list_lengths:
  "length (values_list fs rows) = length rows"
  "list_all (\<lambda>row. length row = length fs) (values_list fs rows)"
  by (simp_all add: values_list_def list_all_iff)

lemma column_counts: "length admin_columns = 12" "length admin_fields = 12"
  "length user_columns = 11" "length user_fields = 11"
  by (simp_all add: admin_columns_def admin_fields_def user_columns_def user_fields_def)

lemma export_sheet_dom:
  assumes h: "write_cells e 0 0 cols True Map.empty = Inr sh0"
    and d: "write_rows e 0 (values_list fs rows) sh0 = Inr sh"
    and k: "length cols = k" "length fs = k"
  shows "dom sh = {0..length rows} \<times> {0..<k}"
proof -
  from write_cells_dom[OF h] k have d0: "dom sh0 = {0} \<times> {0..<k}" by simp
  have "list_all (\<lambda>row. length row = k) (values_list fs rows)"
    using values_list_lengths(2)[of fs rows] k by simp
  from write_rows_dom[OF d this]
  have "dom sh = dom sh0 \<union> {Suc 0..length rows} \<times> {0..<k}"
    by (simp add: values_list_lengths)
  with d0 show ?thesis by auto
qed

lemma grid_counts:
  assumes "dom sh = {0..n} \<times> {0..<k}" and "0 < k"
  shows "card (fst ` dom sh) = Suc n" and "\<forall>r \<le> n. card {c. (r, c) \<in> dom sh} = k"
proof -
  have "fst ` dom sh = {0..n}" using assms by force
  then show "card (fst ` dom sh) = Suc n" by simp
  show "\<forall>r \<le> n. card {c. (r, c) \<in> dom sh} = k"
  proof (intro allI impI)
    fix r assume "r \<le> n"
    then have "{c. (r, c) \<in> dom sh} = {0..<k}" using assms(1) by auto
    then show "card {c. (r, c) \<in> dom sh} = k" by simp
  qed
qed

lemma scoped_admin: "is_superuser u \<Longrightarrow> scoped u rows = Inr rows"
  by (simp add: scoped_def)

lemma scoped_user: "\<not> is_superuser u \<Longrightarrow> scoped u rows = objects_filter_user u rows"
  by (simp add: scoped_def)

lemma write_cells_content:
  "write_cells e r c ls b sh = Inr sh' \<Longrightarrow>
   sh' (r', c') =
     (if r' = r \<and> c \<le> c' \<and> c' < c + length ls
      then Some \<lparr>label = ls ! (c' - c), bold = b\<rparr> else sh (r', c'))"
proof (induction ls arbitrary: c sh)
  case Nil
  then show ?case by auto
next
  case (Cons l ls)
  from Cons.prems obtain sh1 where
    w: "wsheet_write e r c l b sh = Inr sh1" and
    rest: "write_cells e r (Suc c) ls b sh1 = Inr sh'"
    by (auto split: sum.splits)
  from w have s1: "sh1 = sh((r, c) \<mapsto> \<lparr>label = l, bold = b\<rparr>)"
    by (auto simp: wsheet_write_def split: if_splits)
  from Cons.IH[OF rest]
  have "sh' (r', c') =
     (if r' = r \<and> Suc c \<le> c' \<and> c' < Suc c + length ls
      then Some \<lparr>label = ls ! (c' - Suc c), bold = b\<rparr> else sh1 (r', c'))" .
  then show ?case
    by (auto simp: s1 nth_Cons' not_less_eq_eq)
qed

lemma write_rows_content:
  "write_rows e rn rows sh = Inr sh' \<Longrightarrow>
   sh' (r', c') =
     (if rn < r' \<and> r' \<le> rn + length rows \<and> c' < length (rows ! (r' - Suc rn))
      then Some \<lparr>label = rows ! (r' - Suc rn) ! c', bold = False\<rparr> else sh (r', c'))"
proof (induction rows arbitrary: rn sh)
  case Nil
  then show ?case by auto
next
  case (Cons row rows)
  from Cons.prems obtain sh1 where
    w: "write_cells e (Suc rn) 0 row False sh = Inr sh1" and
    rest: "write_rows e (Suc rn) rows sh1 = Inr sh'"
    by (auto split: sum.splits)
  note c1 = write_cells_content[OF w, of r' c']
  note c2 = Cons.IH[OF rest]
  show ?case
  proof (cases "r' = Suc rn")
    case True
    then show ?thesis using c1 c2 by simp
  next
    case False
    then have "sh1 (r', c') = sh (r', c')" using c1 by simp
    moreover have "Suc rn < r' \<Longrightarrow> (row # rows) ! (r' - Suc rn) = rows ! (r' - Suc (Suc rn))"
      by (simp add: nth_Cons' Suc_diff_Suc)
    ultimately show ?thesis using c2 False by (auto simp: nth_Cons')
  qed
qed

lemma values_list_nth:
  "i < length rows \<Longrightarrow> j < length fs \<Longrightarrow>
   values_list fs rows ! i ! j = field_value (fs ! j) (rows ! i)"
  by (simp add: values_list_def)

lemma export_sheet_content:
  assumes h: "write_cells e 0 0 cols True Map.empty = Inr sh0"
    and d: "write_rows e 0 (values_list fs rows) sh0 = Inr sh"
  shows "\<forall>j < length cols. sh (0, j) = Some \<lparr>label = cols ! j, bold = True\<rparr>"
    and "\<forall>i < length rows. \<forall>j < length fs.
           sh (Suc i, j) = Some \<lparr>label = field_value (fs ! j) (rows ! i), bold = False\<rparr>"
proof -
  show "\<forall>j < length cols. sh (0, j) = Some \<lparr>label = cols ! j, bold = True\<rparr>"
  proof (intro allI impI)
    fix j assume j: "j < length cols"
    have "sh (0, j) = sh0 (0, j)"
      using write_rows_content[OF d, of 0 j] by simp
    also have "\<dots> = Some \<lparr>label = cols ! j, bold = True\<rparr>"
      using write_cells_content[OF h, of 0 j] j by simp
    finally show "sh (0, j) = Some \<lparr>label = cols ! j, bold = True\<rparr>" .
  qed
  show "\<forall>i < length rows. \<forall>j < length fs.
           sh (Suc i, j) = Some \<lparr>label = field_value (fs ! j) (rows ! i), bold = False\<rparr>"
  proof (intro allI impI)
    fix i j assume i: "i < length rows" and j: "j < length fs"
    have len: "length (values_list fs rows) = length rows"
      "length (values_list fs rows ! i) = length fs"
      using i by (simp_all add: values_list_def)
    have "sh (Suc i, j) = Some \<lparr>label = values_list fs rows ! i ! j, bold = False\<rparr>"
      using write_rows_content[OF d, of "Suc i" j] i j len by simp
    then show "sh (Suc i, j) = Some \<lparr>label = field_value (fs ! j) (rows ! i), bold = False\<rparr>"
      using values_list_nth[OF i j] by simp
  qed
qed

lemma write_cells_accepted:
  "cells_accepted e r c ls \<Longrightarrow> \<exists>sh'. write_cells e r c ls b sh = Inr sh'"
  by (induction ls arbitrary: c sh) (simp_all add: wsheet_write_def)

lemma write_cells_Inr_accepted:
  "write_cells e r c ls b sh = Inr sh' \<Longrightarrow> cells_accepted e r c ls"
proof (induction ls arbitrary: c sh)
  case Nil
  then show ?case by simp
next
  case (Cons l ls)
  from Cons.prems obtain sh1 where
    w: "wsheet_write e r c l b sh = Inr sh1" and
    rest: "write_cells e r (Suc c) ls b sh1 = Inr sh'"
    by (auto split: sum.splits)
  from w have "write_accepts e r c l"
    by (auto simp: wsheet_write_def split: if_splits)
  with Cons.IH[OF rest] show ?case by simp
qed

lemma write_rows_accepted:
  "rows_accepted e rn rows \<Longrightarrow> \<exists>sh'. write_rows e rn rows sh = Inr sh'"
proof (induction rows arbitrary: rn sh)
  case Nil
  then show ?case by simp
next
  case (Cons row rows)
  then have c: "cells_accepted e (Suc rn) 0 row" and r: "rows_accepted e (Suc rn) rows"
    by simp_all
  from write_cells_accepted[OF c, of False sh]
  obtain sh1 where w: "write_cells e (Suc rn) 0 row False sh = Inr sh1" by blast
  from Cons.IH[OF r, of sh1] obtain sh' where "write_rows e (Suc rn) rows sh1 = Inr sh'"
    by blast
  with w show ?case by simp
qed

lemma write_rows_Inr_accepted:
  "write_rows e rn rows sh = Inr sh' \<Longrightarrow> rows_accepted e rn rows"
proof (induction rows arbitrary: rn sh)
  case Nil
  then show ?case by simp
next
  case (Cons row rows)
  from Cons.prems obtain sh1 where
    w: "write_cells e (Suc rn) 0 row False sh = Inr sh1" and
    rest: "write_rows e (Suc rn) rows sh1 = Inr sh'"
    by (auto split: sum.splits)
  from write_cells_Inr_accepted[OF w] Cons.IH[OF rest] show ?case by simp
qed

lemma role_lengths:
  "length (columns_for u) = (if is_superuser u then 12 else 11)"
  "length (fields_for u) = (if is_superuser u then 12 else 11)"
  by (simp_all add: columns_for_def fields_for_def column_counts)

lemma scoped_Inr_authenticated: "scoped u objs = Inr rows \<Longrightarrow> is_authenticated u"
  by (cases u) (simp_all add: scoped_def)

lemma scoped_rows:
  assumes "scoped u objs = Inr rows"
  shows "is_superuser u \<longrightarrow> rows = objs"
    and "\<forall>n. u = AuthUser n False \<longrightarrow> rows = filter (\<lambda>r. user r = n) objs"
  using assms by (auto simp: scoped_def)

text \<open>The two ways \<open>export_excel\<close> can end for a requester in scope, and the one way it
  ends for an unauthenticated requester.\<close>

lemma export_excel_Inr:
  assumes "export_excel e req st = Inr resp"
  shows "\<exists>sh0 sh rows.
           scoped (req_user req) (objects st) = Inr rows
           \<and> write_cells e 0 0 (columns_for (req_user req)) True Map.empty = Inr sh0
           \<and> write_rows e 0 (values_list (fields_for (req_user req)) rows) sh0 = Inr sh
           \<and> save_accepts e sh
           \<and> resp = XlsResponse (''Data_'' @ now req @ ''.xls'') sh"
proof (cases "is_superuser (req_user req)")
  case True
  then show ?thesis
    using assms
    by (auto simp: export_excel_def save_workbook_def scoped_def columns_for_def fields_for_def
        split: sum.splits if_splits)
next
  case False
  then show ?thesis
    using assms
    by (auto simp: export_excel_def save_workbook_def scoped_def columns_for_def fields_for_def
        split: sum.splits if_splits)
qed

lemma export_excel_produces:
  assumes sc: "scoped (req_user req) (objects st) = Inr rows"
    and hd: "cells_accepted e 0 0 (columns_for (req_user req))"
    and dt: "rows_accepted e 0 (values_list (fields_for (req_user req)) rows)"
  shows "\<exists>sh0 sh.
           write_cells e 0 0 (columns_for (req_user req)) True Map.empty = Inr sh0
           \<and> write_rows e 0 (values_list (fields_for (req_user req)) rows) sh0 = Inr sh
           \<and> export_excel e req st =
               (if save_accepts e sh then Inr (XlsResponse (''Data_'' @ now req @ ''.xls'') sh)
                else Inl XlwtError)"
proof -
  from write_cells_accepted[OF hd, of True Map.empty] obtain sh0 where
    h: "write_cells e 0 0 (columns_for (req_user req)) True Map.empty = Inr sh0" by blast
  from write_rows_accepted[OF dt, of sh0] obtain sh where
    d: "write_rows e 0 (values_list (fields_for (req_user req)) rows) sh0 = Inr sh" by blast
  have "export_excel e req st =
          (if save_accepts e sh then Inr (XlsResponse (''Data_'' @ now req @ ''.xls'') sh)
           else Inl XlwtError)"
  proof (cases "is_superuser (req_user req)")
    case True
    with sc have "rows = objects st" by (simp add: scoped_def)
    with True h d show ?thesis
      by (simp add: export_excel_def save_workbook_def columns_for_def fields_for_def)
  next
    case False
    with sc have "objects_filter_user (req_user req) (objects st) = Inr rows"
      by (simp add: scoped_def)
    with False h d show ?thesis
      by (simp add: export_excel_def save_workbook_def columns_for_def fields_for_def)
  qed
  with h d show ?thesis by blast
qed

lemma export_excel_anonymous:
  assumes "\<not> is_authenticated (req_user req)"
  shows "\<exists>err. export_excel e req st = Inl err"
proof -
  from assms have u: "req_user req = AnonymousUser"
    by (cases "req_user req") simp_all
  show ?thesis
    by (cases "write_cells e 0 0 user_columns True Map.empty")
       (simp_all add: export_excel_def u)
qed

text \<open>
  Claim C5. Whenever \<open>export_excel\<close> produces a file, its worksheet holds exactly the
  cells of rows \<open>0 .. n\<close> and of columns \<open>0 .. k - 1\<close>, where \<open>n\<close> is the number of records
  visible to the requester (the header row plus one row per visible record) and \<open>k\<close> is
  12 for an administrator and 11 otherwise. And the export does run to the point of
  saving such a worksheet for every requester in scope, provided the spreadsheet library
  accepts the cells the view writes: it then returns the file, unless saving that very
  worksheet raises.
\<close>

theorem export_excel_rows_and_columns:
  "(export_excel e req st = Inr resp \<longrightarrow>
      (\<exists>sh rows. resp = XlsResponse (''Data_'' @ now req @ ''.xls'') sh
         \<and> scoped (req_user req) (objects st) = Inr rows
         \<and> dom sh = {0..length rows} \<times> {0..<(if is_superuser (req_user req) then 12 else 11)}
         \<and> card (fst ` dom sh) = Suc (length rows)
         \<and> (\<forall>r \<le> length rows.
               card {c. (r, c) \<in> dom sh} = (if is_superuser (req_user req) then 12 else 11))))
   \<and> (scoped (req_user req) (objects st) = Inr rows
        \<and> cells_accepted e 0 0 (columns_for (req_user req))
        \<and> rows_accepted e 0 (values_list (fields_for (req_user req)) rows) \<longrightarrow>
      (\<exists>sh. dom sh = {0..length rows} \<times> {0..<(if is_superuser (req_user req) then 12 else 11)}
         \<and> card (fst ` dom sh) = Suc (length rows)
         \<and> (\<forall>r \<le> length rows.
               card {c. (r, c) \<in> dom sh} = (if is_superuser (req_user req) then 12 else 11))
         \<and> export_excel e req st =
               (if save_accepts e sh then Inr (XlsResponse (''Data_'' @ now req @ ''.xls'') sh)
                else Inl XlwtError)))"
proof (intro conjI impI)
  let ?k = "if is_superuser (req_user req) then 12 else 11 :: nat"
  have pos: "0 < ?k" by simp
  assume ex: "export_excel e req st = Inr resp"
  from export_excel_Inr[OF ex] obtain sh0 sh rows' where
    sc: "scoped (req_user req) (objects st) = Inr rows'" and
    h: "write_cells e 0 0 (columns_for (req_user req)) True Map.empty = Inr sh0" and
    d: "write_rows e 0 (values_list (fields_for (req_user req)) rows') sh0 = Inr sh" and
    r: "resp = XlsResponse (''Data_'' @ now req @ ''.xls'') sh"
    by blast
  from export_sheet_dom[OF h d role_lengths(1) role_lengths(2)]
  have dm: "dom sh = {0..length rows'} \<times> {0..<?k}" .
  from grid_counts[OF dm pos] r sc dm
  show "\<exists>sh rows. resp = XlsResponse (''Data_'' @ now req @ ''.xls'') sh
         \<and> scoped (req_user req) (objects st) = Inr rows
         \<and> dom sh = {0..length rows} \<times> {0..<(if is_superuser (req_user req) then 12 else 11)}
         \<and> card (fst ` dom sh) = Suc (length rows)
         \<and> (\<forall>r \<le> length rows.
               card {c. (r, c) \<in> dom sh} = (if is_superuser (req_user req) then 12 else 11))"
    by blast
next
  let ?k = "if is_superuser (req_user req) then 12 else 11 :: nat"
  have pos: "0 < ?k" by simp
  assume a: "scoped (req_user req) (objects st) = Inr rows
        \<and> cells_accepted e 0 0 (columns_for (req_user req))
        \<and> rows_accepted e 0 (values_list (fields_for (req_user req)) rows)"
  then have sc: "scoped (req_user req) (objects st) = Inr rows"
    and hd: "cells_accepted e 0 0 (columns_for (req_user req))"
    and dt: "rows_accepted e 0 (values_list (fields_for (req_user req)) rows)"
    by simp_all
  from export_excel_produces[OF sc hd dt] obtain sh0 sh where
    h: "write_cells e 0 0 (columns_for (req_user req)) True Map.empty = Inr sh0" and
    d: "write_rows e 0 (values_list (fields_for (req_user req)) rows) sh0 = Inr sh" and
    ex: "export_excel e req st =
           (if save_accepts e sh then Inr (XlsResponse (''Data_'' @ now req @ ''.xls'') sh)
            else Inl XlwtError)"
    by blast
  from export_sheet_dom[OF h d role_lengths(1) role_lengths(2)]
  have dm: "dom sh = {0..length rows} \<times> {0..<?k}" .
  from grid_counts[OF dm pos] dm ex
  show "\<exists>sh. dom sh = {0..length rows} \<times> {0..<(if is_superuser (req_user req) then 12 else 11)}
         \<and> card (fst ` dom sh) = Suc (length rows)
         \<and> (\<forall>r \<le> length rows.
               card {c. (r, c) \<in> dom sh} = (if is_superuser (req_user req) then 12 else 11))
         \<and> export_excel e req st =
               (if save_accepts e sh then Inr (XlsResponse (''Data_'' @ now req @ ''.xls'') sh)
                else Inl XlwtError)"
    by blast
qed

lemma sample_xlwt:
  "write_accepts sample_env r c l = (r < 65536 \<and> c < 256 \<and> length l \<le> 32767)"
  "save_accepts sample_env sh"
  by (simp_all add: sample_env_def)

lemma sample_scopes:
  "scoped (req_user (mk_request alice m p g)) (objects sample_state) = Inr [rec_alice]"
  "scoped (req_user (mk_request root_user m p g)) (objects sample_state) = Inr [rec_alice, rec_bob]"
  by (simp_all add: scoped_def mk_request_eval alice_def root_user_def sample_state_eval
      sample_rows_eval)

lemma sample_cells_accepted:
  "cells_accepted sample_env 0 0 (columns_for (req_user (mk_request alice m p g)))"
  "cells_accepted sample_env 0 0 (columns_for (req_user (mk_request root_user m p g)))"
  "rows_accepted sample_env 0
     (values_list (fields_for (req_user (mk_request alice m p g))) [rec_alice])"
  "rows_accepted sample_env 0
     (values_list (fields_for (req_user (mk_request root_user m p g))) [rec_alice, rec_bob])"
  by (simp_all add: columns_for_def fields_for_def mk_request_eval alice_def root_user_def
      admin_columns_def user_columns_def admin_fields_def user_fields_def values_list_def
      field_value_def rec_alice_def rec_bob_def blank_def sample_xlwt)

lemma sample_now: "now (mk_request u m p g) = ''2024-01-01 00:00:00''"
  by (simp add: mk_request_def)

text \<open>The instance: on the sample store under the limits of the \<open>.xls\<close> format, a
  standard user's file has 2 rows of 11 columns and the administrator's 3 rows of 12.\<close>

theorem export_excel_rows_and_columns_witness:
  "scoped (req_user (mk_request alice ''GET'' [] [])) (objects sample_state) = Inr [rec_alice]
   \<and> cells_accepted sample_env 0 0 (columns_for (req_user (mk_request alice ''GET'' [] [])))
   \<and> rows_accepted sample_env 0
        (values_list (fields_for (req_user (mk_request alice ''GET'' [] []))) [rec_alice])
   \<and> (\<exists>sh. export_excel sample_env (mk_request alice ''GET'' [] []) sample_state =
             Inr (XlsResponse ''Data_2024-01-01 00:00:00.xls'' sh)
           \<and> dom sh = {0..1} \<times> {0..<11}
           \<and> card (fst ` dom sh) = 2
           \<and> card {c. (1, c) \<in> dom sh} = 11)
   \<and> scoped (req_user (mk_request root_user ''GET'' [] [])) (objects sample_state) =
        Inr [rec_alice, rec_bob]
   \<and> (\<exists>sh. export_excel sample_env (mk_request root_user ''GET'' [] []) sample_state =
             Inr (XlsResponse ''Data_2024-01-01 00:00:00.xls'' sh)
           \<and> dom sh = {0..2} \<times> {0..<12}
           \<and> card (fst ` dom sh) = 3
           \<and> card {c. (2, c) \<in> dom sh} = 12)"
proof -
  let ?a = "mk_request alice ''GET'' [] []"
  let ?r = "mk_request root_user ''GET'' [] []"
  have na: "\<not> is_superuser (req_user ?a)" and nr: "is_superuser (req_user ?r)"
    by (simp_all add: mk_request_eval alice_def root_user_def)
  from export_excel_rows_and_columns [of sample_env ?a sample_state _ "[rec_alice]"]
    sample_scopes(1) sample_cells_accepted(1) sample_cells_accepted(3)
  obtain sh where
    "dom sh = {0..length [rec_alice]} \<times> {0..<(if is_superuser (req_user ?a) then 12 else 11)}"
    "card (fst ` dom sh) = Suc (length [rec_alice])"
    "\<forall>r \<le> length [rec_alice].
        card {c. (r, c) \<in> dom sh} = (if is_superuser (req_user ?a) then 12 else 11)"
    "export_excel sample_env ?a sample_state =
       (if save_accepts sample_env sh then Inr (XlsResponse (''Data_'' @ now ?a @ ''.xls'') sh)
        else Inl XlwtError)"
    by blast
  with na have A: "\<exists>sh. export_excel sample_env ?a sample_state =
             Inr (XlsResponse ''Data_2024-01-01 00:00:00.xls'' sh)
           \<and> dom sh = {0..1} \<times> {0..<11}
           \<and> card (fst ` dom sh) = 2
           \<and> card {c. (1, c) \<in> dom sh} = 11"
    by (auto simp: sample_xlwt sample_now)
  from export_excel_rows_and_columns [of sample_env ?r sample_state _ "[rec_alice, rec_bob]"]
    sample_scopes(2) sample_cells_accepted(2) sample_cells_accepted(4)
  obtain sh where
    "dom sh = {0..length [rec_alice, rec_bob]}
        \<times> {0..<(if is_superuser (req_user ?r) then 12 else 11)}"
    "card (fst ` dom sh) = Suc (length [rec_alice, rec_bob])"
    "\<forall>r \<le> length [rec_alice, rec_bob].
        card {c. (r, c) \<in> dom sh} = (if is_superuser (req_user ?r) then 12 else 11)"
    "export_excel sample_env ?r sample_state =
       (if save_accepts sample_env sh then Inr (XlsResponse (''Data_'' @ now ?r @ ''.xls'') sh)
        else Inl XlwtError)"
    by blast
  with nr have R: "\<exists>sh. export_excel sample_env ?r sample_state =
             Inr (XlsResponse ''Data_2024-01-01 00:00:00.xls'' sh)
           \<and> dom sh = {0..2} \<times> {0..<12}
           \<and> card (fst ` dom sh) = 3
           \<and> card {c. (2, c) \<in> dom sh} = 12"
    by (auto simp: sample_xlwt sample_now numeral_2_eq_2)
  from A R sample_scopes[of "''GET''" "[]" "[]"]
    sample_cells_accepted(1)[of "''GET''" "[]" "[]"]
    sample_cells_accepted(3)[of "''GET''" "[]" "[]"]
  show ?thesis by blast
qed

text \<open>
  Claim C4. Every file \<open>export_excel\<close> returns goes to an authenticated requester and
  holds, below the bold header of the requester's role, row by row in the store's order
  the printed fields of exactly the records in the requester's scope (all records for an
  administrator, the requester's own for any other user) and no other cell. An
  unauthenticated request never obtains a file: the view raises. For a requester in
  scope the file is produced whenever the library accepts the cells written, unless
  saving the worksheet raises.
\<close>

theorem export_excel_serializes_scope:
  "(export_excel e req st = Inr resp \<longrightarrow>
      is_authenticated (req_user req)
      \<and> (\<exists>sh rows. resp = XlsResponse (''Data_'' @ now req @ ''.xls'') sh
            \<and> scoped (req_user req) (objects st) = Inr rows
            \<and> (is_superuser (req_user req) \<longrightarrow> rows = objects st)
            \<and> (\<forall>n. req_user req = AuthUser n False \<longrightarrow>
                   rows = filter (\<lambda>r. user r = n) (objects st))
            \<and> dom sh = {0..length rows} \<times> {0..<length (fields_for (req_user req))}
            \<and> (\<forall>j < length (columns_for (req_user req)).
                   sh (0, j) = Some \<lparr>label = columns_for (req_user req) ! j, bold = True\<rparr>)
            \<and> (\<forall>i < length rows. \<forall>j < length (fields_for (req_user req)).
                   sh (Suc i, j) =
                     Some \<lparr>label = field_value (fields_for (req_user req) ! j) (rows ! i),
                           bold = False\<rparr>)))
   \<and> (\<not> is_authenticated (req_user req) \<longrightarrow> (\<exists>err. export_excel e req st = Inl err))
   \<and> (scoped (req_user req) (objects st) = Inr rows
        \<and> cells_accepted e 0 0 (columns_for (req_user req))
        \<and> rows_accepted e 0 (values_list (fields_for (req_user req)) rows) \<longrightarrow>
      (\<exists>sh. dom sh = {0..length rows} \<times> {0..<length (fields_for (req_user req))}
         \<and> (\<forall>j < length (columns_for (req_user req)).
                sh (0, j) = Some \<lparr>label = columns_for (req_user req) ! j, bold = True\<rparr>)
         \<and> (\<forall>i < length rows. \<forall>j < length (fields_for (req_user req)).
                sh (Suc i, j) =
                  Some \<lparr>label = field_value (fields_for (req_user req) ! j) (rows ! i),
                        bold = False\<rparr>)
         \<and> export_excel e req st =
               (if save_accepts e sh then Inr (XlsResponse (''Data_'' @ now req @ ''.xls'') sh)
                else Inl XlwtError)))"
proof (intro conjI impI)
  assume ex: "export_excel e req st = Inr resp"
  from export_excel_Inr[OF ex] obtain sh0 sh rows' where
    sc: "scoped (req_user req) (objects st) = Inr rows'" and
    h: "write_cells e 0 0 (columns_for (req_user req)) True Map.empty = Inr sh0" and
    d: "write_rows e 0 (values_list (fields_for (req_user req)) rows') sh0 = Inr sh" and
    r: "resp = XlsResponse (''Data_'' @ now req @ ''.xls'') sh"
    by blast
  from sc show "is_authenticated (req_user req)" by (rule scoped_Inr_authenticated)
  have len: "length (columns_for (req_user req)) = length (fields_for (req_user req))"
    by (simp add: role_lengths)
  from export_sheet_dom[OF h d len refl]
  have dm: "dom sh = {0..length rows'} \<times> {0..<length (fields_for (req_user req))}" .
  from r sc scoped_rows[OF sc] dm export_sheet_content[OF h d]
  show "\<exists>sh rows. resp = XlsResponse (''Data_'' @ now req @ ''.xls'') sh
            \<and> scoped (req_user req) (objects st) = Inr rows
            \<and> (is_superuser (req_user req) \<longrightarrow> rows = objects st)
            \<and> (\<forall>n. req_user req = AuthUser n False \<longrightarrow>
                   rows = filter (\<lambda>r. user r = n) (objects st))
            \<and> dom sh = {0..length rows} \<times> {0..<length (fields_for (req_user req))}
            \<and> (\<forall>j < length (columns_for (req_user req)).
                   sh (0, j) = Some \<lparr>label = columns_for (req_user req) ! j, bold = True\<rparr>)
            \<and> (\<forall>i < length rows. \<forall>j < length (fields_for (req_user req)).
                   sh (Suc i, j) =
                     Some \<lparr>label = field_value (fields_for (req_user req) ! j) (rows ! i),
                           bold = False\<rparr>)"
    by blast
next
  assume "\<not> is_authenticated (req_user req)"
  then show "\<exists>err. export_excel e req st = Inl err" by (rule export_excel_anonymous)
next
  assume a: "scoped (req_user req) (objects st) = Inr rows
        \<and> cells_accepted e 0 0 (columns_for (req_user req))
        \<and> rows_accepted e 0 (values_list (fields_for (req_user req)) rows)"
  then have sc: "scoped (req_user req) (objects st) = Inr rows"
    and hd: "cells_accepted e 0 0 (columns_for (req_user req))"
    and dt: "rows_accepted e 0 (values_list (fields_for (req_user req)) rows)"
    by simp_all
  from export_excel_produces[OF sc hd dt] obtain sh0 sh where
    h: "write_cells e 0 0 (columns_for (req_user req)) True Map.empty = Inr sh0" and
    d: "write_rows e 0 (values_list (fields_for (req_user req)) rows) sh0 = Inr sh" and
    ex: "export_excel e req st =
           (if save_accepts e sh then Inr (XlsResponse (''Data_'' @ now req @ ''.xls'') sh)
            else Inl XlwtError)"
    by blast
  have len: "length (columns_for (req_user req)) = length (fields_for (req_user req))"
    by (simp add: role_lengths)
  from export_sheet_dom[OF h d len refl]
  have dm: "dom sh = {0..length rows} \<times> {0..<length (fields_for (req_user req))}" .
  from dm ex export_sheet_content[OF h d]
  show "\<exists>sh. dom sh = {0..length rows} \<times> {0..<length (fields_for (req_user req))}
         \<and> (\<forall>j < length (columns_for (req_user req)).
                sh (0, j) = Some \<lparr>label = columns_for (req_user req) ! j, bold = True\<rparr>)
         \<and> (\<forall>i < length rows. \<forall>j < length (fields_for (req_user req)).
                sh (Suc i, j) =
                  Some \<lparr>label = field_value (fields_for (req_user req) ! j) (rows ! i),
                        bold = False\<rparr>)
         \<and> export_excel e req st =
               (if save_accepts e sh then Inr (XlsResponse (''Data_'' @ now req @ ''.xls'') sh)
                else Inl XlwtError)"
    by blast
qed

lemma sample_alice_fields:
  "length (fields_for (req_user (mk_request alice m p g))) = 11"
  "length (columns_for (req_user (mk_request alice m p g))) = 11"
  "columns_for (req_user (mk_request alice m p g)) ! 0 = ''Client Name''"
  "fields_for (req_user (mk_request alice m p g)) ! 0 = ''client_name''"
  "field_value ''client_name'' rec_alice = ''Acme''"
  by (simp_all add: columns_for_def fields_for_def mk_request_eval alice_def
      user_columns_def user_fields_def field_value_def rec_alice_def)

text \<open>The instance: \<open>alice\<close> exports her one record and not \<open>bob\<close>'s; the anonymous request
  ends in an exception.\<close>

theorem export_excel_serializes_scope_witness:
  "scoped (req_user (mk_request alice ''GET'' [] [])) (objects sample_state) = Inr [rec_alice]
   \<and> cells_accepted sample_env 0 0 (columns_for (req_user (mk_request alice ''GET'' [] [])))
   \<and> rows_accepted sample_env 0
        (values_list (fields_for (req_user (mk_request alice ''GET'' [] []))) [rec_alice])
   \<and> (\<exists>sh. export_excel sample_env (mk_request alice ''GET'' [] []) sample_state =
             Inr (XlsResponse ''Data_2024-01-01 00:00:00.xls'' sh)
           \<and> dom sh = {0..1} \<times> {0..<11}
           \<and> sh (0, 0) = Some \<lparr>label = ''Client Name'', bold = True\<rparr>
           \<and> sh (1, 0) = Some \<lparr>label = ''Acme'', bold = False\<rparr>)
   \<and> \<not> is_authenticated (req_user (mk_request AnonymousUser ''GET'' [] []))
   \<and> (\<exists>err. export_excel sample_env (mk_request AnonymousUser ''GET'' [] []) sample_state =
               Inl err)"
proof -
  let ?a = "mk_request alice ''GET'' [] []"
  let ?n = "mk_request AnonymousUser ''GET'' [] []"
  from export_excel_serializes_scope [of sample_env ?a sample_state _ "[rec_alice]"]
    sample_scopes(1) sample_cells_accepted(1) sample_cells_accepted(3)
  obtain sh where
    dm: "dom sh = {0..length [rec_alice]} \<times> {0..<length (fields_for (req_user ?a))}" and
    hd: "\<forall>j < length (columns_for (req_user ?a)).
           sh (0, j) = Some \<lparr>label = columns_for (req_user ?a) ! j, bold = True\<rparr>" and
    dt: "\<forall>i < length [rec_alice]. \<forall>j < length (fields_for (req_user ?a)).
           sh (Suc i, j) =
             Some \<lparr>label = field_value (fields_for (req_user ?a) ! j) ([rec_alice] ! i),
                   bold = False\<rparr>" and
    ex: "export_excel sample_env ?a sample_state =
       (if save_accepts sample_env sh then Inr (XlsResponse (''Data_'' @ now ?a @ ''.xls'') sh)
        else Inl XlwtError)"
    by blast
  from hd have h0: "sh (0, 0) = Some \<lparr>label = ''Client Name'', bold = True\<rparr>"
    by (simp add: sample_alice_fields)
  from dt have "sh (Suc 0, 0) = Some \<lparr>label = ''Acme'', bold = False\<rparr>"
    by (simp add: sample_alice_fields)
  then have d0: "sh (1, 0) = Some \<lparr>label = ''Acme'', bold = False\<rparr>" by simp
  from dm have dm': "dom sh = {0..1} \<times> {0..<11}"
    by (simp add: sample_alice_fields)
  from ex have ex': "export_excel sample_env ?a sample_state =
      Inr (XlsResponse ''Data_2024-01-01 00:00:00.xls'' sh)"
    by (simp add: sample_xlwt sample_now)
  have an: "\<not> is_authenticated (req_user ?n)"
    by (simp add: mk_request_eval)
  with export_excel_serializes_scope [of sample_env ?n sample_state]
  have no: "\<exists>err. export_excel sample_env ?n sample_state = Inl err"
    by blast
  from ex' dm' h0 d0 an no sample_scopes(1)[of "''GET''" "[]" "[]"]
    sample_cells_accepted(1)[of "''GET''" "[]" "[]"]
    sample_cells_accepted(3)[of "''GET''" "[]" "[]"]
  show ?thesis by blast
qed

text \<open>\<open>export_excel\<close> carries no \<open>login_required\<close>: the unauthenticated request that
  \<open>details\<close> redirects to the sign-in page enters the view, which writes the header row
  and then fails in the query.\<close>

lemma export_excel_anonymous_type_error:
  "\<not> is_authenticated (req_user (mk_request AnonymousUser ''GET'' [] []))
   \<and> details sample_env (mk_request AnonymousUser ''GET'' [] []) sample_state =
       (Redirect ''signin'', sample_state)
   \<and> export_excel sample_env (mk_request AnonymousUser ''GET'' [] []) sample_state =
       Inl TypeError"
  by (simp add: details_def login_required_def export_excel_def mk_request_eval
      user_columns_def wsheet_write_def sample_env_def)

text \<open>
  Claim C9 (the code departs from it). \<open>export_excel\<close> has no \<open>try\<close>: when a write raises,
  here on a comment of 32768 characters that a cell cannot hold, the exception leaves
  the view; the view itself never builds a server-error response.
\<close>

theorem export_excel_error_propagates:
  "is_authenticated (req_user (mk_request alice ''GET'' [] []))
   \<and> export_excel sample_env (mk_request alice ''GET'' [] []) long_state = Inl XlwtError"
  by (simp add: export_excel_def mk_request_eval alice_def long_state_def rec_long_def
      blank_def user_columns_def user_fields_def values_list_def field_value_def
      wsheet_write_def sample_env_def)

lemma export_excel_never_server_error:
  "export_excel e req st \<noteq> Inr (HttpResponseServerError msg)"
  by (auto simp: export_excel_def save_workbook_def split: sum.splits if_splits)

section \<open>The owner of a record over sequences of requests\<close>

lemma set_field_pk: "pk (set_field f v r) = pk r"
  by (simp add: set_field_def)

lemma set_field_user: "f \<noteq> ''user'' \<Longrightarrow> user (set_field f v r) = user r"
  by (simp add: set_field_def)

lemma construct_instance_pk: "pk (construct_instance fs d r) = pk r"
  by (induction fs arbitrary: r) (simp_all add: set_field_pk split: option.splits)

lemma construct_instance_user:
  "''user'' \<notin> set fs \<Longrightarrow> user (construct_instance fs d r) = user r"
proof (induction fs arbitrary: r)
  case Nil
  then show ?case by simp
next
  case (Cons f fs)
  then have "f \<noteq> ''user''" and rest: "''user'' \<notin> set fs" by auto
  then show ?case
    using Cons.IH[OF rest] by (simp add: set_field_user split: option.splits)
qed

lemma objects_get_Inr:
  assumes "objects_get i rows = Inr r"
  shows "r \<in> set rows \<and> pk r = i"
proof -
  from assms have "filter (\<lambda>x. pk x = i) rows = [r]"
    by (auto simp: objects_get_def split: list.splits)
  then have "r \<in> set (filter (\<lambda>x. pk x = i) rows)" by simp
  then show ?thesis by simp
qed

text \<open>What one request can do to the table.\<close>

lemma signup_table:
  "objects (snd (signup e req st)) = objects st \<and> next_pk (snd (signup e req st)) = next_pk st"
  by (simp add: signup_def)

lemma signin_table:
  "objects (snd (signin e req st)) = objects st \<and> next_pk (snd (signin e req st)) = next_pk st"
  by (simp add: signin_def split: option.splits)

lemma signout_table:
  "objects (snd (signout req st)) = objects st \<and> next_pk (snd (signout req st)) = next_pk st"
  by (simp add: signout_def)

lemma details_state: "snd (details e req st) = st"
  by (simp add: details_def login_required_def details_view_def split: sum.splits)

lemma addnew_table:
  "snd (addnew e req st) = st
   \<or> (\<exists>r. objects (snd (addnew e req st)) = objects st @ [r\<lparr>pk := next_pk st\<rparr>]
          \<and> next_pk (snd (addnew e req st)) = Suc (next_pk st))"
proof (cases "req_user req")
  case AnonymousUser
  then show ?thesis by (simp add: addnew_def login_required_def)
next
  case (AuthUser name su)
  let ?x = "(construct_instance (form_fields e) (POST req) blank)\<lparr>user := name\<rparr>"
  have "snd (addnew e req st) = st \<or> snd (addnew e req st) = save_new ?x st"
    using AuthUser by (simp add: addnew_def login_required_def addnew_view_def)
  then show ?thesis
  proof
    assume "snd (addnew e req st) = st"
    then show ?thesis by simp
  next
    assume "snd (addnew e req st) = save_new ?x st"
    then have "objects (snd (addnew e req st)) = objects st @ [?x\<lparr>pk := next_pk st\<rparr>]
               \<and> next_pk (snd (addnew e req st)) = Suc (next_pk st)"
      by (simp add: save_new_def)
    then show ?thesis by (intro disjI2 exI[where x = ?x])
  qed
qed

lemma edit_table:
  assumes "''user'' \<notin> set (form_fields e)"
  shows "snd (edit e req req_id st) = st
   \<or> (\<exists>x y. y \<in> set (objects st) \<and> pk x = pk y \<and> user x = user y
          \<and> objects (snd (edit e req req_id st)) =
              map (\<lambda>z. if pk z = pk x then x else z) (objects st)
          \<and> next_pk (snd (edit e req req_id st)) = next_pk st)"
proof (cases "objects_get req_id (objects st)")
  case (Inl err)
  then show ?thesis
    by (cases err) (simp_all add: edit_def login_required_def edit_view_def)
next
  case (Inr y)
  let ?x = "construct_instance (form_fields e) (POST req) y"
  from objects_get_Inr[OF Inr] have y: "y \<in> set (objects st)" by simp
  have px: "pk ?x = pk y" by (rule construct_instance_pk)
  have ux: "user ?x = user y" using assms by (rule construct_instance_user)
  have "snd (edit e req req_id st) = st \<or> snd (edit e req req_id st) = save_existing ?x st"
    using Inr by (simp add: edit_def login_required_def edit_view_def)
  then show ?thesis
  proof
    assume "snd (edit e req req_id st) = st"
    then show ?thesis by simp
  next
    assume "snd (edit e req req_id st) = save_existing ?x st"
    then have "objects (snd (edit e req req_id st)) =
                 map (\<lambda>z. if pk z = pk ?x then ?x else z) (objects st)
               \<and> next_pk (snd (edit e req req_id st)) = next_pk st"
      by (simp add: save_existing_def)
    with y px ux show ?thesis by blast
  qed
qed

lemma delete_table:
  "snd (delete req req_id st) = st
   \<or> (\<exists>y::MyTable. objects (snd (delete req req_id st)) = filter (\<lambda>z. pk z \<noteq> pk y) (objects st)
          \<and> next_pk (snd (delete req req_id st)) = next_pk st)"
proof (cases "objects_get req_id (objects st)")
  case (Inl err)
  then show ?thesis
    by (cases err) (simp_all add: delete_def login_required_def delete_view_def)
next
  case (Inr y)
  have "snd (delete req req_id st) = st \<or> snd (delete req req_id st) = delete_row y st"
    using Inr by (simp add: delete_def login_required_def delete_view_def)
  then show ?thesis
  proof
    assume "snd (delete req req_id st) = st"
    then show ?thesis by simp
  next
    assume "snd (delete req req_id st) = delete_row y st"
    then have "objects (snd (delete req req_id st)) = filter (\<lambda>z. pk z \<noteq> pk y) (objects st)
               \<and> next_pk (snd (delete req req_id st)) = next_pk st"
      by (simp add: delete_row_def)
    then show ?thesis by auto
  qed
qed

text \<open>The four shapes of a step.\<close>

lemma step_table:
  assumes "''user'' \<notin> set (form_fields e)"
  shows "(objects (step e op st) = objects st \<and> next_pk (step e op st) = next_pk st)
   \<or> (\<exists>r. objects (step e op st) = objects st @ [r\<lparr>pk := next_pk st\<rparr>]
          \<and> next_pk (step e op st) = Suc (next_pk st))
   \<or> (\<exists>x y. y \<in> set (objects st) \<and> pk x = pk y \<and> user x = user y
          \<and> objects (step e op st) = map (\<lambda>z. if pk z = pk x then x else z) (objects st)
          \<and> next_pk (step e op st) = next_pk st)
   \<or> (\<exists>y::MyTable. objects (step e op st) = filter (\<lambda>z. pk z \<noteq> pk y) (objects st)
          \<and> next_pk (step e op st) = next_pk st)"
proof (cases op)
  case (Signup req)
  then show ?thesis using signup_table[of e req st] by simp
next
  case (Signin req)
  then show ?thesis using signin_table[of e req st] by simp
next
  case (Signout req)
  then show ?thesis using signout_table[of req st] by simp
next
  case (Details req)
  then show ?thesis by (simp add: details_state)
next
  case (Addnew req)
  then show ?thesis using addnew_table[of e req st] by auto
next
  case (Edit req req_id)
  then show ?thesis using edit_table[OF assms, of req req_id st] by auto
next
  case (Delete req req_id)
  then show ?thesis using delete_table[of req req_id st] by auto
next
  case (Export req)
  then show ?thesis by simp
qed

lemma wf_store_iff:
  "wf_store st \<longleftrightarrow> distinct (map pk (objects st)) \<and> (\<forall>r \<in> set (objects st). pk r < next_pk st)"
  by (simp add: wf_store_def list_all_iff)

lemma keeps_owners_iff:
  "keeps_owners st st' \<longleftrightarrow>
     next_pk st \<le> next_pk st' \<and>
     (\<forall>r' \<in> set (objects st'). pk r' < next_pk st \<longrightarrow>
        (\<exists>r \<in> set (objects st). pk r = pk r' \<and> user r = user r'))"
  by (simp add: keeps_owners_def list_all_iff list_ex_iff)

lemma map_pk_replace:
  "map pk (map (\<lambda>z. if pk z = pk x then x else z) rows) = map pk rows"
  by (induction rows) simp_all

lemma wf_store_step:
  assumes f: "''user'' \<notin> set (form_fields e)" and wf: "wf_store st"
  shows "wf_store (step e op st)"
proof -
  from wf have d: "distinct (map pk (objects st))"
    and b: "\<forall>r \<in> set (objects st). pk r < next_pk st"
    by (simp_all add: wf_store_iff)
  from step_table[OF f, of op st] show ?thesis
  proof (elim disjE exE conjE)
    assume "objects (step e op st) = objects st" "next_pk (step e op st) = next_pk st"
    with d b show ?thesis by (simp add: wf_store_iff)
  next
    fix r
    assume o: "objects (step e op st) = objects st @ [r\<lparr>pk := next_pk st\<rparr>]"
      and n: "next_pk (step e op st) = Suc (next_pk st)"
    from b have "next_pk st \<notin> pk ` set (objects st)" by auto
    with d b o n show ?thesis by (auto simp: wf_store_iff less_Suc_eq)
  next
    fix x y
    assume y: "y \<in> set (objects st)" and px: "pk x = pk y"
      and o: "objects (step e op st) = map (\<lambda>z. if pk z = pk x then x else z) (objects st)"
      and n: "next_pk (step e op st) = next_pk st"
    have "map pk (objects (step e op st)) = map pk (objects st)"
      unfolding o by (rule map_pk_replace)
    with d have "distinct (map pk (objects (step e op st)))"
      by simp
    moreover have "\<forall>r \<in> set (objects (step e op st)). pk r < next_pk (step e op st)"
      using b y px by (auto simp: o n)
    ultimately show ?thesis by (simp add: wf_store_iff)
  next
    fix y :: MyTable
    assume o: "objects (step e op st) = filter (\<lambda>z. pk z \<noteq> pk y) (objects st)"
      and n: "next_pk (step e op st) = next_pk st"
    have "distinct (map pk (objects (step e op st)))"
      using d by (simp add: o distinct_map_filter)
    moreover have "\<forall>r \<in> set (objects (step e op st)). pk r < next_pk (step e op st)"
      using b by (simp add: o n)
    ultimately show ?thesis by (simp add: wf_store_iff)
  qed
qed

lemma keeps_owners_step:
  assumes f: "''user'' \<notin> set (form_fields e)" and wf: "wf_store st"
  shows "keeps_owners st (step e op st)"
proof -
  from wf have b: "\<forall>r \<in> set (objects st). pk r < next_pk st"
    by (simp add: wf_store_iff)
  from step_table[OF f, of op st] show ?thesis
  proof (elim disjE exE conjE)
    assume "objects (step e op st) = objects st" "next_pk (step e op st) = next_pk st"
    then show ?thesis by (auto simp: keeps_owners_iff)
  next
    fix r
    assume o: "objects (step e op st) = objects st @ [r\<lparr>pk := next_pk st\<rparr>]"
      and n: "next_pk (step e op st) = Suc (next_pk st)"
    then show ?thesis by (auto simp: keeps_owners_iff)
  next
    fix x y
    assume y: "y \<in> set (objects st)" and px: "pk x = pk y" and ux: "user x = user y"
      and o: "objects (step e op st) = map (\<lambda>z. if pk z = pk x then x else z) (objects st)"
      and n: "next_pk (step e op st) = next_pk st"
    show ?thesis
      unfolding keeps_owners_iff
    proof (intro conjI ballI impI)
      show "next_pk st \<le> next_pk (step e op st)" by (simp add: n)
    next
      fix r'
      assume "r' \<in> set (objects (step e op st))"
      then have "r' = x \<or> r' \<in> set (objects st)" by (auto simp: o)
      then show "\<exists>r \<in> set (objects st). pk r = pk r' \<and> user r = user r'"
        using y px ux by auto
    qed
  next
    fix y :: MyTable
    assume o: "objects (step e op st) = filter (\<lambda>z. pk z \<noteq> pk y) (objects st)"
      and n: "next_pk (step e op st) = next_pk st"
    then show ?thesis by (auto simp: keeps_owners_iff)
  qed
qed

lemma keeps_owners_refl: "keeps_owners st st"
  by (auto simp: keeps_owners_iff)

lemma keeps_owners_trans:
  assumes "keeps_owners a b" and "keeps_owners b c"
  shows "keeps_owners a c"
  unfolding keeps_owners_iff
proof (intro conjI ballI impI)
  show "next_pk a \<le> next_pk c"
    using assms by (simp add: keeps_owners_iff)
next
  fix r''
  assume m: "r'' \<in> set (objects c)" and lt: "pk r'' < next_pk a"
  from assms(1) have "next_pk a \<le> next_pk b" by (simp add: keeps_owners_iff)
  with lt have "pk r'' < next_pk b" by simp
  with assms(2) m obtain r' where
    r': "r' \<in> set (objects b)" "pk r' = pk r''" "user r' = user r''"
    by (auto simp: keeps_owners_iff)
  with lt assms(1) obtain r where
    "r \<in> set (objects a)" "pk r = pk r'" "user r = user r'"
    by (auto simp: keeps_owners_iff)
  with r' show "\<exists>r \<in> set (objects a). pk r = pk r'' \<and> user r = user r''"
    by auto
qed

lemma wf_store_run:
  "''user'' \<notin> set (form_fields e) \<Longrightarrow> wf_store st \<Longrightarrow> wf_store (run e ops st)"
  by (induction ops arbitrary: st) (simp_all add: wf_store_step)

lemma keeps_owners_run:
  "''user'' \<notin> set (form_fields e) \<Longrightarrow> wf_store st \<Longrightarrow> keeps_owners st (run e ops st)"
proof (induction ops arbitrary: st)
  case Nil
  then show ?case by (simp add: keeps_owners_refl)
next
  case (Cons op ops)
  have "keeps_owners st (step e op st)"
    using Cons.prems by (rule keeps_owners_step)
  moreover have "keeps_owners (step e op st) (run e ops (step e op st))"
    using Cons.prems by (intro Cons.IH wf_store_step)
  ultimately show ?case
    by (simp add: keeps_owners_trans)
qed

lemma wf_store_init: "wf_store init"
  by (simp add: wf_store_def init_def)

text \<open>
  The owner under sequences of requests. Starting from the empty store, take any sequence
  of requests (sign-up, sign-in, sign-out, list, create, edit, delete, export) and then
  any further sequence: a record that is in the store after the first and whose key is
  still in the store after the second has the owner it had, provided the form of the
  edit view does not bind the owner field. The views themselves assign the owner only in
  \<open>addnew\<close>; whether an edit can change it is decided by the fields of \<open>MyTableForm\<close>,
  which \<open>views.py\<close> does not fix.
\<close>

theorem owner_never_reassigned:
  assumes f: "''user'' \<notin> set (form_fields e)"
    and r: "r \<in> set (objects (run e ops1 init))"
    and r': "r' \<in> set (objects (run e ops2 (run e ops1 init)))"
    and same: "pk r' = pk r"
  shows "user r' = user r"
proof -
  let ?st = "run e ops1 init"
  have wf: "wf_store ?st"
    using f wf_store_init by (rule wf_store_run)
  then have d: "distinct (map pk (objects ?st))"
    and b: "\<forall>x \<in> set (objects ?st). pk x < next_pk ?st"
    by (simp_all add: wf_store_iff)
  have "keeps_owners ?st (run e ops2 ?st)"
    using f wf by (rule keeps_owners_run)
  moreover have "pk r' < next_pk ?st"
    using b r same by simp
  ultimately obtain r0 where
    r0: "r0 \<in> set (objects ?st)" "pk r0 = pk r'" "user r0 = user r'"
    using r' by (auto simp: keeps_owners_iff)
  from d have "inj_on pk (set (objects ?st))"
    by (simp add: distinct_map)
  with r0 r same have "r0 = r"
    by (auto dest: inj_onD)
  with r0 show ?thesis by simp
qed

lemma sample_env_eval:
  "form_fields sample_env = MyTableForm_fields"
  "MyTableForm_valid sample_env d = (map_of d ''client_name'' \<noteq> None)"
  "form_fields owner_form_env = ''user'' # MyTableForm_fields"
  "MyTableForm_valid owner_form_env d = (map_of d ''client_name'' \<noteq> None)"
  by (simp_all add: sample_env_def owner_form_env_def)

lemma created_by_alice:
  "run sample_env [Addnew (mk_request alice ''POST'' [(''client_name'', ''Acme'')] [])] init =
     init\<lparr>objects := [blank\<lparr>client_name := ''Acme'', user := ''alice'', pk := 1\<rparr>],
          next_pk := 2\<rparr>"
  by (simp add: addnew_def login_required_def addnew_view_def save_new_def mk_request_eval
      alice_def sample_env_eval MyTableForm_fields_def set_field_def init_def)

lemma edited_by_root:
  "run sample_env
     [Edit (mk_request root_user ''POST'' [(''client_name'', ''Apex''), (''user'', ''root'')] []) 1]
     (init\<lparr>objects := [blank\<lparr>client_name := ''Acme'', user := ''alice'', pk := 1\<rparr>],
           next_pk := 2\<rparr>) =
     init\<lparr>objects := [blank\<lparr>client_name := ''Apex'', user := ''alice'', pk := 1\<rparr>],
          next_pk := 2\<rparr>"
  by (simp add: edit_def login_required_def edit_view_def save_existing_def objects_get_def
      mk_request_eval root_user_def sample_env_eval MyTableForm_fields_def set_field_def
      init_def blank_def)

theorem owner_never_reassigned_witness:
  "''user'' \<notin> set (form_fields sample_env)
   \<and> blank\<lparr>client_name := ''Acme'', user := ''alice'', pk := 1\<rparr>
       \<in> set (objects (run sample_env
             [Addnew (mk_request alice ''POST'' [(''client_name'', ''Acme'')] [])] init))
   \<and> blank\<lparr>client_name := ''Apex'', user := ''alice'', pk := 1\<rparr>
       \<in> set (objects (run sample_env
             [Edit (mk_request root_user ''POST''
                      [(''client_name'', ''Apex''), (''user'', ''root'')] []) 1]
             (run sample_env
                [Addnew (mk_request alice ''POST'' [(''client_name'', ''Acme'')] [])] init)))
   \<and> user (blank\<lparr>client_name := ''Apex'', user := ''alice'', pk := 1\<rparr>) =
       user (blank\<lparr>client_name := ''Acme'', user := ''alice'', pk := 1\<rparr>)"
  using owner_never_reassigned
    [of sample_env "blank\<lparr>client_name := ''Acme'', user := ''alice'', pk := 1\<rparr>"
      "[Addnew (mk_request alice ''POST'' [(''client_name'', ''Acme'')] [])]"
      "blank\<lparr>client_name := ''Apex'', user := ''alice'', pk := 1\<rparr>"
      "[Edit (mk_request root_user ''POST''
                [(''client_name'', ''Apex''), (''user'', ''root'')] []) 1]"]
  by (simp only: created_by_alice edited_by_root)
     (simp add: sample_env_eval MyTableForm_fields_def)

text \<open>With a form that binds the owner field the same edit does reassign the owner.\<close>

lemma owner_form_edit_reassigns:
  "run owner_form_env
     [Edit (mk_request root_user ''POST'' [(''client_name'', ''Apex''), (''user'', ''root'')] []) 1]
     (init\<lparr>objects := [blank\<lparr>client_name := ''Acme'', user := ''alice'', pk := 1\<rparr>],
           next_pk := 2\<rparr>) =
     init\<lparr>objects := [blank\<lparr>client_name := ''Apex'', user := ''root'', pk := 1\<rparr>],
          next_pk := 2\<rparr>"
  by (simp add: edit_def login_required_def edit_view_def save_existing_def objects_get_def
      mk_request_eval root_user_def sample_env_eval MyTableForm_fields_def set_field_def
      init_def blank_def)

end
